theory Spec2Isabelle
  imports Main "HOL-Library.AList"
begin

section \<open>Data model of onnx/defs/data_type_utils.cc\<close>

text \<open>
  A failing \<^verbatim>\<open>assert\<close> of the source is a branch of the model that returns an error:
  the model is of the program with its assertions active, where a failing assertion ends
  the run. The four assertions are named after the spec's error taxonomy:
  \<^item> \<open>InvalidTypeString\<close>: \<^verbatim>\<open>assert(IsValidDataTypeString(type_str))\<close> in FromDataTypeString;
  \<^item> \<open>UnsupportedTypeDescriptor\<close>: \<^verbatim>\<open>assert(false)\<close> in the default case of ToString;
  \<^item> \<open>UnknownElementCode\<close>: the assertion on the iterator in ToDataTypeString;
  \<^item> \<open>ForeignHandle\<close>: the assertion on the iterator in ToTypeProto.
\<close>

datatype error =
  InvalidTypeString | UnsupportedTypeDescriptor | UnknownElementCode | ForeignHandle

text \<open>
  Modelled from the spec: the enumeration \<^verbatim>\<open>TensorProto::DataType\<close> and the messages
  \<^verbatim>\<open>TypeProto\<close>, \<^verbatim>\<open>TypeProto::TensorTypeProto\<close> and the shape message are declared by
  onnx.proto, which is not among the sources. The enumerators are the fifteen that the
  constructor of TypesWrapper names, taken as pairwise different codes (the spec's
  ElementTypeCode), and \<open>UNDEFINED\<close>, the code of an element type that was never set.
  A tensor type carries its element code and an optional shape, an ordered sequence of
  dimensions; \<^verbatim>\<open>has_shape()\<close> is \<open>shape t \<noteq> None\<close> and \<^verbatim>\<open>dim_size()\<close> is the length. The
  \<^verbatim>\<open>oneof\<close> of a TypeProto is unset, a tensor type, or some other case, which ToString
  sends to its default branch.
\<close>

datatype TensorProto_DataType =
  UNDEFINED | FLOAT | UINT8 | INT8 | UINT16 | INT16 | INT32 | INT64 | STRING | BOOL
  | FLOAT16 | DOUBLE | UINT32 | UINT64 | COMPLEX64 | COMPLEX128

type_synonym Dimension = int

record TensorTypeProto =
  elem_type :: TensorProto_DataType
  shape :: "Dimension list option"

datatype TypeProto = VALUE_NOT_SET | kTensorType TensorTypeProto | kOtherType

subsection \<open>TypesWrapper\<close>

text \<open>
  Member names lose the trailing underscore of the source, which an Isabelle name cannot
  end with. The two \<^verbatim>\<open>unordered_map\<close>s are association lists with one pair per key
  (\<^verbatim>\<open>m[k] = v\<close> is \<open>AList.update k v m\<close>, \<^verbatim>\<open>m.find(k)\<close> is \<open>map_of m k\<close>); the
  \<^verbatim>\<open>unordered_set\<close> is a set.
\<close>

record TypesWrapper =
  type_str_to_tensor_data_type :: "(string \<times> TensorProto_DataType) list"
  tensor_data_type_to_type_str :: "(TensorProto_DataType \<times> string) list"
  allowed_data_types :: "string set"

text \<open>The fifteen assignments of the constructor, in the order of the source.\<close>

definition TypesWrapper_assignments :: "(string \<times> TensorProto_DataType) list" where
  "TypesWrapper_assignments =
     [(''float'', FLOAT), (''float16'', FLOAT16), (''double'', DOUBLE),
      (''int8'', INT8), (''int16'', INT16), (''int32'', INT32), (''int64'', INT64),
      (''uint8'', UINT8), (''uint16'', UINT16), (''uint32'', UINT32), (''uint64'', UINT64),
      (''complext64'', COMPLEX64), (''complext128'', COMPLEX128),
      (''string'', STRING), (''bool'', BOOL)]"

text \<open>
  The body of the loop \<^verbatim>\<open>for (auto& str_type_pair : type_str_to_tensor_data_type_)\<close>.
\<close>

definition TypesWrapper_loop_body ::
  "TypesWrapper \<Rightarrow> string \<times> TensorProto_DataType \<Rightarrow> TypesWrapper" where
  "TypesWrapper_loop_body w str_type_pair =
     w\<lparr>tensor_data_type_to_type_str :=
         AList.update (snd str_type_pair) (fst str_type_pair)
           (tensor_data_type_to_type_str w),
       allowed_data_types := insert (fst str_type_pair) (allowed_data_types w)\<rparr>"

definition TypesWrapper_ctor :: TypesWrapper where
  "TypesWrapper_ctor =
     (let m = foldl (\<lambda>m (k, v). AList.update k v m) [] TypesWrapper_assignments
      in foldl TypesWrapper_loop_body
           \<lparr>type_str_to_tensor_data_type = m,
            tensor_data_type_to_type_str = [],
            allowed_data_types = {}\<rparr> m)"

text \<open>
  \<^verbatim>\<open>static TypesWrapper types\<close>: constructed once. Nothing changes it afterwards: the only
  write, \<^verbatim>\<open>operator[]\<close> in FromDataTypeString, is reached with a key that is present.
\<close>

definition GetTypesWrapper :: TypesWrapper where
  "GetTypesWrapper = TypesWrapper_ctor"

definition GetAllowedDataTypes :: "string set" where
  "GetAllowedDataTypes = allowed_data_types GetTypesWrapper"

definition TypeStrToTensorDataType :: "(string \<times> TensorProto_DataType) list" where
  "TypeStrToTensorDataType = type_str_to_tensor_data_type GetTypesWrapper"

definition TensorDataTypeToTypeStr :: "(TensorProto_DataType \<times> string) list" where
  "TensorDataTypeToTypeStr = tensor_data_type_to_type_str GetTypesWrapper"

subsection \<open>StringRange\<close>

text \<open>
  The pointers \<^verbatim>\<open>data_\<close>, \<^verbatim>\<open>start_\<close> and \<^verbatim>\<open>end_\<close> always point into one external
  buffer: they are the offsets \<open>data_p\<close>, \<open>start_p\<close> and \<open>end_p\<close> into \<open>buf\<close>, and
  \<^verbatim>\<open>size_\<close> is \<open>size_n\<close>. \<^verbatim>\<open>std::string(s.Data(), s.Size())\<close> is \<open>view s\<close>.
\<close>

record StringRange =
  buf :: string
  data_p :: nat
  size_n :: nat
  start_p :: nat
  end_p :: nat

definition view :: "StringRange \<Rightarrow> string" where
  "view s = take (size_n s) (drop (data_p s) (buf s))"

text \<open>\<^verbatim>\<open>isspace\<close> in the C locale: space, and the five controls from tab to carriage return.\<close>

definition isspace :: "char \<Rightarrow> bool" where
  "isspace c = (c = CHR '' '' \<or> c = CHR 0x09 \<or> c = CHR 0x0A \<or> c = CHR 0x0B
                \<or> c = CHR 0x0C \<or> c = CHR 0x0D)"

definition StartsWith :: "StringRange \<Rightarrow> StringRange \<Rightarrow> bool" where
  "StartsWith s str =
     (size_n s \<ge> size_n str \<and>
      take (size_n str) (drop (data_p s) (buf s)) =
      take (size_n str) (drop (data_p str) (buf str)))"

definition EndsWith :: "StringRange \<Rightarrow> StringRange \<Rightarrow> bool" where
  "EndsWith s str =
     (size_n s \<ge> size_n str \<and>
      take (size_n str) (drop (data_p s + (size_n s - size_n str)) (buf s)) =
      take (size_n str) (drop (data_p str) (buf str)))"

text \<open>\<^verbatim>\<open>LStrip(size_t)\<close>, \<^verbatim>\<open>LStrip()\<close> and \<^verbatim>\<open>LStrip(StringRange)\<close>.\<close>

definition LStrip_size :: "StringRange \<Rightarrow> nat \<Rightarrow> bool \<times> StringRange" where
  "LStrip_size s n =
     (if n \<le> size_n s
      then (True, s\<lparr>data_p := data_p s + n, size_n := size_n s - n, end_p := end_p s + n\<rparr>)
      else (False, s))"

function LStrip_loop :: "StringRange \<Rightarrow> nat \<Rightarrow> nat" where
  "LStrip_loop s count =
     (if count < size_n s \<and> isspace (buf s ! (data_p s + count))
      then LStrip_loop s (count + 1) else count)"
  by pat_completeness auto
termination
  by (relation "measure (\<lambda>(s, count). size_n s - count)") auto

definition LStrip :: "StringRange \<Rightarrow> bool \<times> StringRange" where
  "LStrip s =
     (let count = LStrip_loop s 0
      in if count > 0 then LStrip_size s count else (False, s))"

definition LStrip_str :: "StringRange \<Rightarrow> StringRange \<Rightarrow> bool \<times> StringRange" where
  "LStrip_str s str = (if StartsWith s str then LStrip_size s (size_n str) else (False, s))"

text \<open>
  \<^verbatim>\<open>RStrip(size_t)\<close>, \<^verbatim>\<open>RStrip()\<close> and \<^verbatim>\<open>RStrip(StringRange)\<close>. In the loop, \<^verbatim>\<open>ptr\<close> is
  \<^verbatim>\<open>data_ + size_ - 1 - count\<close>, read only while \<^verbatim>\<open>count < size_\<close>.
\<close>

definition RStrip_size :: "StringRange \<Rightarrow> nat \<Rightarrow> bool \<times> StringRange" where
  "RStrip_size s n =
     (if size_n s \<ge> n then (True, s\<lparr>size_n := size_n s - n\<rparr>) else (False, s))"

function RStrip_loop :: "StringRange \<Rightarrow> nat \<Rightarrow> nat" where
  "RStrip_loop s count =
     (if count < size_n s \<and> isspace (buf s ! (data_p s + size_n s - 1 - count))
      then RStrip_loop s (count + 1) else count)"
  by pat_completeness auto
termination
  by (relation "measure (\<lambda>(s, count). size_n s - count)") auto

definition RStrip :: "StringRange \<Rightarrow> bool \<times> StringRange" where
  "RStrip s =
     (let count = RStrip_loop s 0
      in if count > 0 then RStrip_size s count else (False, s))"

definition RStrip_str :: "StringRange \<Rightarrow> StringRange \<Rightarrow> bool \<times> StringRange" where
  "RStrip_str s str = (if EndsWith s str then RStrip_size s (size_n str) else (False, s))"

definition LAndRStrip :: "StringRange \<Rightarrow> bool \<times> StringRange" where
  "LAndRStrip s =
     (let (l, s1) = LStrip s; (r, s2) = RStrip s1 in (l \<or> r, s2))"

text \<open>
  The constructors \<^verbatim>\<open>StringRange(const char*, size_t)\<close>, \<^verbatim>\<open>StringRange(const std::string&)\<close>
  and \<^verbatim>\<open>StringRange(const char*)\<close>. Each sets \<^verbatim>\<open>start_\<close> and \<^verbatim>\<open>end_\<close> to \<^verbatim>\<open>data_\<close> and then
  calls \<^verbatim>\<open>LAndRStrip()\<close>. The first takes its pointer as a buffer and an offset into it
  (a pointer into a buffer is not null, so its assertion holds); the last measures its
  argument with \<^verbatim>\<open>strlen\<close>.
\<close>

definition StringRange_data_size :: "string \<Rightarrow> nat \<Rightarrow> nat \<Rightarrow> StringRange" where
  "StringRange_data_size b p_data p_size =
     snd (LAndRStrip \<lparr>buf = b, data_p = p_data, size_n = p_size,
                      start_p = p_data, end_p = p_data\<rparr>)"

definition StringRange_string :: "string \<Rightarrow> StringRange" where
  "StringRange_string p_str =
     snd (LAndRStrip \<lparr>buf = p_str, data_p = 0, size_n = length p_str,
                      start_p = 0, end_p = 0\<rparr>)"

definition strlen :: "string \<Rightarrow> nat" where
  "strlen p = length (takeWhile (\<lambda>c. c \<noteq> CHR 0x00) p)"

definition StringRange_cstr :: "string \<Rightarrow> StringRange" where
  "StringRange_cstr p_data =
     snd (LAndRStrip \<lparr>buf = p_data, data_p = 0, size_n = strlen p_data,
                      start_p = 0, end_p = 0\<rparr>)"

definition ParensWhitespaceStrip :: "StringRange \<Rightarrow> StringRange" where
  "ParensWhitespaceStrip s =
     (let s1 = snd (LStrip s);
          s2 = snd (LStrip_str s1 (StringRange_cstr ''(''));
          s3 = snd (LAndRStrip s2);
          s4 = snd (RStrip_str s3 (StringRange_cstr '')''));
          s5 = snd (RStrip s4)
      in s5)"

definition RestartCapture :: "StringRange \<Rightarrow> StringRange" where
  "RestartCapture s = s\<lparr>start_p := data_p s, end_p := data_p s\<rparr>"

definition GetCaptured :: "StringRange \<Rightarrow> StringRange" where
  "GetCaptured s = StringRange_data_size (buf s) (start_p s) (end_p s - start_p s)"

subsection \<open>DataTypeUtils\<close>

definition ToDataTypeString :: "TensorProto_DataType \<Rightarrow> error + string" where
  "ToDataTypeString tensor_data_type =
     (case map_of TensorDataTypeToTypeStr tensor_data_type of
        None \<Rightarrow> Inl UnknownElementCode
      | Some str \<Rightarrow> Inr str)"

fun ToString :: "TypeProto \<Rightarrow> string \<Rightarrow> string \<Rightarrow> error + string" where
  "ToString (kTensorType t) left right =
     (case ToDataTypeString (elem_type t) of
        Inl e \<Rightarrow> Inl e
      | Inr nm \<Rightarrow>
          if (case shape t of None \<Rightarrow> False | Some ds \<Rightarrow> length ds = 0)
          then Inr (left @ nm @ right)
          else Inr (left @ ''tensor('' @ nm @ '')'' @ right))"
| "ToString VALUE_NOT_SET left right = Inl UnsupportedTypeDescriptor"
| "ToString kOtherType left right = Inl UnsupportedTypeDescriptor"

definition IsValidDataTypeString :: "string \<Rightarrow> bool" where
  "IsValidDataTypeString type_str = (type_str \<in> GetAllowedDataTypes)"

text \<open>
  After the assertion, \<^verbatim>\<open>operator[]\<close> finds the key; for a key that is absent it would
  give the value-initialised code.
\<close>

definition FromDataTypeString :: "string \<Rightarrow> error + TensorProto_DataType" where
  "FromDataTypeString type_str =
     (if \<not> IsValidDataTypeString type_str then Inl InvalidTypeString
      else (case map_of TypeStrToTensorDataType type_str of
              Some e \<Rightarrow> Inr e
            | None \<Rightarrow> Inr UNDEFINED))"

definition FromString :: "string \<Rightarrow> error + TypeProto" where
  "FromString type_str =
     (let s = StringRange_string type_str;
          (stripped, s1) = LStrip_str s (StringRange_cstr ''tensor'')
      in if stripped
         then (case FromDataTypeString (view (ParensWhitespaceStrip s1)) of
                 Inl err \<Rightarrow> Inl err
               | Inr e \<Rightarrow> Inr (kTensorType \<lparr>elem_type = e, shape = None\<rparr>))
         else (case FromDataTypeString (view s1) of
                 Inl err \<Rightarrow> Inl err
               | Inr e \<Rightarrow> Inr (kTensorType \<lparr>elem_type = e, shape = Some []\<rparr>)))"

text \<open>
  The table of \<^verbatim>\<open>GetTypeStrToProtoMap()\<close>: its nodes in the order of their insertion.
  Nodes are never removed or moved, so the index of a node stands for the address of its
  key, which is the \<^verbatim>\<open>DataType\<close> handle that ToType returns. \<^verbatim>\<open>find\<close> is \<open>find_node\<close>; the
  second \<^verbatim>\<open>find\<close> of ToType comes after the insertion and always finds the key (lemmas
  \<open>ToType_found\<close> and \<open>ToType_fresh\<close> below).
\<close>

type_synonym TypeStrToProtoMap = "(string \<times> TypeProto) list"
type_synonym DataType = nat

fun find_node :: "TypeStrToProtoMap \<Rightarrow> string \<Rightarrow> nat option" where
  "find_node [] k = None"
| "find_node (kv # m) k =
     (if fst kv = k then Some 0
      else (case find_node m k of None \<Rightarrow> None | Some i \<Rightarrow> Some (Suc i)))"

definition ToType :: "TypeStrToProtoMap \<Rightarrow> TypeProto \<Rightarrow> error + (DataType \<times> TypeStrToProtoMap)" where
  "ToType m type_proto =
     (case ToString type_proto [] [] of
        Inl err \<Rightarrow> Inl err
      | Inr typeStr \<Rightarrow>
          (let m1 = (if find_node m typeStr = None then m @ [(typeStr, type_proto)] else m)
           in Inr (the (find_node m1 typeStr), m1)))"

definition ToType_str :: "TypeStrToProtoMap \<Rightarrow> string \<Rightarrow> error + (DataType \<times> TypeStrToProtoMap)" where
  "ToType_str m type_str =
     (case FromString type_str of
        Inl err \<Rightarrow> Inl err
      | Inr type \<Rightarrow> ToType m type)"

section \<open>Valid ranges and the specification's words\<close>

text \<open>
  A StringRange is valid when its window lies inside its buffer; every read of the
  source is then inside the buffer. The constructors from a string produce valid ranges
  and the strip operations keep a range valid.
\<close>

definition valid_range :: "StringRange \<Rightarrow> bool" where
  "valid_range s = (data_p s + size_n s \<le> length (buf s))"

text \<open>
  The strip operations of the specification, on the text itself: whitespace from the
  left and from the right, one given prefix, one given suffix.
\<close>

definition lstrip_ws :: "string \<Rightarrow> string" where
  "lstrip_ws xs = dropWhile isspace xs"

definition rstrip_ws :: "string \<Rightarrow> string" where
  "rstrip_ws xs = rev (dropWhile isspace (rev xs))"

definition strip_prefix :: "string \<Rightarrow> string \<Rightarrow> string" where
  "strip_prefix p xs = (if take (length p) xs = p then drop (length p) xs else xs)"

definition strip_suffix :: "string \<Rightarrow> string \<Rightarrow> string" where
  "strip_suffix p xs =
     (if length p \<le> length xs \<and> drop (length xs - length p) xs = p
      then take (length xs - length p) xs else xs)"

text \<open>
  The specification's stripParenthesesAndWhitespace: strip leading whitespace, a single
  leading parenthesis, whitespace on both sides, a single trailing parenthesis, and
  trailing whitespace again.
\<close>

definition parens_whitespace_strip_spec :: "string \<Rightarrow> string" where
  "parens_whitespace_strip_spec xs =
     rstrip_ws (strip_suffix '')'' (rstrip_ws (lstrip_ws (strip_prefix ''('' (lstrip_ws xs)))))"

text \<open>
  The specification's parse: the trimmed text, after the optional unwrapping of
  \<open>tensor(...)\<close>, is looked up as an element name; the tensor form has no shape and the
  scalar form has a shape of rank 0.
\<close>

definition element_text_spec :: "string \<Rightarrow> string" where
  "element_text_spec type_str =
     (let t = rstrip_ws (lstrip_ws type_str)
      in if take (length ''tensor'') t = ''tensor''
         then parens_whitespace_strip_spec (drop (length ''tensor'') t) else t)"

definition FromString_spec :: "string \<Rightarrow> error + TypeProto" where
  "FromString_spec type_str =
     (case FromDataTypeString (element_text_spec type_str) of
        Inl err \<Rightarrow> Inl err
      | Inr e \<Rightarrow>
          Inr (kTensorType
            \<lparr>elem_type = e,
             shape = (if take (length ''tensor'') (rstrip_ws (lstrip_ws type_str)) = ''tensor''
                      then None else Some [])\<rparr>))"

text \<open>
  Normalisation of a type string, as \<^verbatim>\<open>ToType(const std::string&)\<close> does it: FromString,
  then ToString with the default empty decorations.
\<close>

definition normalize_type_str :: "string \<Rightarrow> error + string" where
  "normalize_type_str type_str =
     (case FromString type_str of Inl err \<Rightarrow> Inl err | Inr type \<Rightarrow> ToString type [] [])"

section \<open>Sequences of calls\<close>

text \<open>
  The strip operations of a StringRange as values, so that a sequence of calls made on
  one range can be run: each call updates the range and its result flag is dropped.
\<close>

datatype strip_op =
  Op_LStrip | Op_LStrip_size nat | Op_LStrip_str StringRange
  | Op_RStrip | Op_RStrip_size nat | Op_RStrip_str StringRange
  | Op_LAndRStrip | Op_ParensWhitespaceStrip

fun strip :: "strip_op \<Rightarrow> StringRange \<Rightarrow> StringRange" where
  "strip Op_LStrip s = snd (LStrip s)"
| "strip (Op_LStrip_size n) s = snd (LStrip_size s n)"
| "strip (Op_LStrip_str str) s = snd (LStrip_str s str)"
| "strip Op_RStrip s = snd (RStrip s)"
| "strip (Op_RStrip_size n) s = snd (RStrip_size s n)"
| "strip (Op_RStrip_str str) s = snd (RStrip_str s str)"
| "strip Op_LAndRStrip s = snd (LAndRStrip s)"
| "strip Op_ParensWhitespaceStrip s = ParensWhitespaceStrip s"

definition strips :: "strip_op list \<Rightarrow> StringRange \<Rightarrow> StringRange" where
  "strips ops s = fold strip ops s"

text \<open>
  The text that left strips have removed between two states of a range: what lies
  between the front edge of the earlier state and the front edge of the later one.
\<close>

definition consumed_text :: "StringRange \<Rightarrow> StringRange \<Rightarrow> string" where
  "consumed_text s0 s1 = take (data_p s1 - data_p s0) (view s0)"

text \<open>
  What every strip operation does to a range: the buffer and \<^verbatim>\<open>start_\<close> stay, the front
  edge only advances and \<^verbatim>\<open>end_\<close> advances with it, and the back edge never grows.
\<close>

definition narrows :: "StringRange \<Rightarrow> StringRange \<Rightarrow> bool" where
  "narrows s s' =
     (buf s' = buf s \<and> start_p s' = start_p s \<and> data_p s \<le> data_p s'
      \<and> end_p s' = end_p s + (data_p s' - data_p s)
      \<and> data_p s' + size_n s' \<le> data_p s + size_n s)"

text \<open>
  A range over the buffer \<open>ab cd\<close> whose capture has just been restarted, and two left
  strips on it: two bytes, then whitespace.
\<close>

definition capture_example :: StringRange where
  "capture_example = RestartCapture (StringRange_string ''ab cd'')"

definition capture_example_ops :: "strip_op list" where
  "capture_example_ops = [Op_LStrip_size 2, Op_LStrip]"

text \<open>
  A sequence of calls of \<^verbatim>\<open>ToType(const std::string&)\<close> on the shared table; a failing
  assertion ends the sequence.
\<close>

fun ToType_strs :: "TypeStrToProtoMap \<Rightarrow> string list \<Rightarrow> error + TypeStrToProtoMap" where
  "ToType_strs m [] = Inr m"
| "ToType_strs m (type_str # rest) =
     (case ToType_str m type_str of
        Inl err \<Rightarrow> Inl err
      | Inr (h, m1) \<Rightarrow> ToType_strs m1 rest)"

section \<open>StringRange computes the strips of the specification\<close>

declare LStrip_loop.simps [simp del] RStrip_loop.simps [simp del]

lemma length_view: "valid_range s \<Longrightarrow> length (view s) = size_n s"
  by (simp add: view_def valid_range_def)

lemma view_nth: "valid_range s \<Longrightarrow> i < size_n s \<Longrightarrow> view s ! i = buf s ! (data_p s + i)"
  by (simp add: view_def valid_range_def)

lemma LStrip_loop_eq:
  "valid_range s \<Longrightarrow> count \<le> size_n s \<Longrightarrow>
   LStrip_loop s count = count + length (takeWhile isspace (drop count (view s)))"
proof (induction s count rule: LStrip_loop.induct)
  case (1 s count)
  show ?case
  proof (cases "count < size_n s")
    case False
    then have "LStrip_loop s count = count"
      by (subst LStrip_loop.simps) simp
    with False 1(2,3) show ?thesis by (simp add: length_view)
  next
    case True
    then have d: "drop count (view s) = buf s ! (data_p s + count) # drop (Suc count) (view s)"
      using 1(2) Cons_nth_drop_Suc [of count "view s", symmetric]
      by (simp add: length_view view_nth)
    show ?thesis
    proof (cases "isspace (buf s ! (data_p s + count))")
      case sp: True
      then have "LStrip_loop s count = LStrip_loop s (count + 1)"
        using True by (subst LStrip_loop.simps) simp
      with 1(1) [OF _ 1(2)] True sp d show ?thesis by simp
    next
      case nsp: False
      then have "LStrip_loop s count = count"
        by (subst LStrip_loop.simps) simp
      with nsp d show ?thesis by simp
    qed
  qed
qed

lemma LStrip_loop_0:
  "valid_range s \<Longrightarrow> LStrip_loop s 0 = length (takeWhile isspace (view s))"
  by (simp add: LStrip_loop_eq)

lemma view_LStrip_size:
  "valid_range s \<Longrightarrow> n \<le> size_n s \<Longrightarrow> view (snd (LStrip_size s n)) = drop n (view s)"
  by (simp add: LStrip_size_def view_def valid_range_def drop_take add.commute)

lemma valid_LStrip_size: "valid_range s \<Longrightarrow> valid_range (snd (LStrip_size s n))"
  by (simp add: LStrip_size_def valid_range_def)

lemma view_LStrip: "valid_range s \<Longrightarrow> view (snd (LStrip s)) = lstrip_ws (view s)"
proof -
  assume v: "valid_range s"
  have le: "length (takeWhile isspace (view s)) \<le> size_n s"
    using length_takeWhile_le [of isspace "view s"] v by (simp add: length_view)
  show ?thesis
  proof (cases "takeWhile isspace (view s) = []")
    case True
    then have "dropWhile isspace (view s) = view s"
      by (metis append_Nil takeWhile_dropWhile_id)
    with True v show ?thesis by (simp add: LStrip_def LStrip_loop_0 lstrip_ws_def)
  next
    case False
    with v le show ?thesis
      by (simp add: LStrip_def LStrip_loop_0 lstrip_ws_def view_LStrip_size Let_def
          dropWhile_eq_drop)
  qed
qed

lemma valid_LStrip: "valid_range s \<Longrightarrow> valid_range (snd (LStrip s))"
  by (simp add: LStrip_def Let_def valid_LStrip_size)

lemma fst_LStrip:
  "valid_range s \<Longrightarrow> fst (LStrip s) = (lstrip_ws (view s) \<noteq> view s)"
proof -
  assume v: "valid_range s"
  have le: "length (takeWhile isspace (view s)) \<le> size_n s"
    using length_takeWhile_le [of isspace "view s"] v by (simp add: length_view)
  have "(takeWhile isspace (view s) = []) = (dropWhile isspace (view s) = view s)"
    by (metis takeWhile_dropWhile_id self_append_conv2)
  with v le show ?thesis
    by (auto simp add: LStrip_def LStrip_loop_0 lstrip_ws_def Let_def LStrip_size_def)
qed

lemma RStrip_loop_eq:
  "valid_range s \<Longrightarrow> count \<le> size_n s \<Longrightarrow>
   RStrip_loop s count = count + length (takeWhile isspace (drop count (rev (view s))))"
proof (induction s count rule: RStrip_loop.induct)
  case (1 s count)
  show ?case
  proof (cases "count < size_n s")
    case False
    then have "RStrip_loop s count = count"
      by (subst RStrip_loop.simps) simp
    with False 1(2,3) show ?thesis by (simp add: length_view)
  next
    case True
    then have "rev (view s) ! count = buf s ! (data_p s + size_n s - 1 - count)"
      using 1(2) by (simp add: rev_nth length_view view_nth)
    then have d: "drop count (rev (view s)) =
        buf s ! (data_p s + size_n s - 1 - count) # drop (Suc count) (rev (view s))"
      using True 1(2) Cons_nth_drop_Suc [of count "rev (view s)", symmetric]
      by (simp add: length_view)
    show ?thesis
    proof (cases "isspace (buf s ! (data_p s + size_n s - 1 - count))")
      case sp: True
      then have "RStrip_loop s count = RStrip_loop s (count + 1)"
        using True by (subst RStrip_loop.simps) simp
      with 1(1) [OF _ 1(2)] True sp d show ?thesis by simp
    next
      case nsp: False
      then have "RStrip_loop s count = count"
        by (subst RStrip_loop.simps) simp
      with nsp d show ?thesis by simp
    qed
  qed
qed

lemma RStrip_loop_0:
  "valid_range s \<Longrightarrow> RStrip_loop s 0 = length (takeWhile isspace (rev (view s)))"
  by (simp add: RStrip_loop_eq)

lemma view_RStrip_size:
  "valid_range s \<Longrightarrow> n \<le> size_n s \<Longrightarrow>
   view (snd (RStrip_size s n)) = take (size_n s - n) (view s)"
  by (simp add: RStrip_size_def view_def min_def)

lemma valid_RStrip_size: "valid_range s \<Longrightarrow> valid_range (snd (RStrip_size s n))"
  by (auto simp add: RStrip_size_def valid_range_def)

lemma view_RStrip: "valid_range s \<Longrightarrow> view (snd (RStrip s)) = rstrip_ws (view s)"
proof -
  assume v: "valid_range s"
  let ?n = "length (takeWhile isspace (rev (view s)))"
  have le: "?n \<le> size_n s"
    using length_takeWhile_le [of isspace "rev (view s)"] v by (simp add: length_view)
  have r: "rstrip_ws (view s) = take (size_n s - ?n) (view s)"
    using v by (simp add: rstrip_ws_def dropWhile_eq_drop rev_drop length_view)
  show ?thesis
  proof (cases "?n = 0")
    case True
    with v r show ?thesis
      by (simp add: RStrip_def RStrip_loop_0 length_view [symmetric] del: length_0_conv)
  next
    case False
    with v le r show ?thesis
      by (simp add: RStrip_def RStrip_loop_0 view_RStrip_size Let_def)
  qed
qed

lemma valid_RStrip: "valid_range s \<Longrightarrow> valid_range (snd (RStrip s))"
  by (simp add: RStrip_def Let_def valid_RStrip_size)

lemma fst_RStrip:
  "valid_range s \<Longrightarrow> fst (RStrip s) = (rstrip_ws (view s) \<noteq> view s)"
proof -
  assume v: "valid_range s"
  have "(takeWhile isspace (rev (view s)) = []) = (dropWhile isspace (rev (view s)) = rev (view s))"
    by (metis takeWhile_dropWhile_id self_append_conv2)
  then have "(takeWhile isspace (rev (view s)) = []) = (rstrip_ws (view s) = view s)"
    by (simp add: rstrip_ws_def rev_swap)
  moreover have "length (takeWhile isspace (rev (view s))) \<le> size_n s"
    using length_takeWhile_le [of isspace "rev (view s)"] v by (simp add: length_view)
  ultimately show ?thesis using v
    by (auto simp add: RStrip_def RStrip_loop_0 Let_def RStrip_size_def)
qed

lemma view_LAndRStrip:
  "valid_range s \<Longrightarrow> view (snd (LAndRStrip s)) = rstrip_ws (lstrip_ws (view s))"
  by (simp add: LAndRStrip_def split_def Let_def view_RStrip valid_LStrip view_LStrip)

lemma valid_LAndRStrip: "valid_range s \<Longrightarrow> valid_range (snd (LAndRStrip s))"
  by (simp add: LAndRStrip_def split_def Let_def valid_RStrip valid_LStrip)

lemma StartsWith_view:
  "valid_range s \<Longrightarrow> valid_range str \<Longrightarrow>
   StartsWith s str = (take (length (view str)) (view s) = view str)"
proof -
  assume v: "valid_range s" "valid_range str"
  show ?thesis
  proof (cases "size_n str \<le> size_n s")
    case True
    with v show ?thesis
      by (simp add: StartsWith_def length_view) (simp add: view_def min_def)
  next
    case False
    with v have "length (take (length (view str)) (view s)) \<noteq> length (view str)"
      by (simp add: length_view)
    then have "take (length (view str)) (view s) \<noteq> view str" by metis
    with False show ?thesis by (simp add: StartsWith_def)
  qed
qed

lemma fst_LStrip_str:
  "valid_range s \<Longrightarrow> valid_range str \<Longrightarrow>
   fst (LStrip_str s str) = (take (length (view str)) (view s) = view str)"
  using StartsWith_view [of s str]
  by (auto simp add: LStrip_str_def LStrip_size_def StartsWith_def)

lemma view_LStrip_str:
  "valid_range s \<Longrightarrow> valid_range str \<Longrightarrow>
   view (snd (LStrip_str s str)) = strip_prefix (view str) (view s)"
proof -
  assume v: "valid_range s" "valid_range str"
  show ?thesis
  proof (cases "StartsWith s str")
    case True
    then have "size_n str \<le> size_n s" by (simp add: StartsWith_def)
    with True v show ?thesis
      using StartsWith_view [OF v]
      by (simp add: LStrip_str_def view_LStrip_size strip_prefix_def length_view)
  next
    case False
    with v show ?thesis
      using StartsWith_view [OF v] by (simp add: LStrip_str_def strip_prefix_def)
  qed
qed

lemma valid_LStrip_str: "valid_range s \<Longrightarrow> valid_range (snd (LStrip_str s str))"
  by (simp add: LStrip_str_def valid_LStrip_size)

lemma EndsWith_view:
  "valid_range s \<Longrightarrow> valid_range str \<Longrightarrow>
   EndsWith s str = (length (view str) \<le> length (view s) \<and>
      drop (length (view s) - length (view str)) (view s) = view str)"
proof -
  assume v: "valid_range s" "valid_range str"
  show ?thesis
  proof (cases "size_n str \<le> size_n s")
    case True
    have "drop (size_n s - size_n str) (view s) =
          take (size_n str) (drop (data_p s + (size_n s - size_n str)) (buf s))"
      using True by (simp add: view_def drop_take add.commute)
    with True v show ?thesis
      by (simp add: EndsWith_def length_view) (simp add: view_def)
  next
    case False
    with v show ?thesis by (simp add: EndsWith_def length_view)
  qed
qed

lemma view_RStrip_str:
  "valid_range s \<Longrightarrow> valid_range str \<Longrightarrow>
   view (snd (RStrip_str s str)) = strip_suffix (view str) (view s)"
proof -
  assume v: "valid_range s" "valid_range str"
  note e = EndsWith_view [OF v]
  show ?thesis
  proof (cases "EndsWith s str")
    case True
    then have le: "size_n str \<le> size_n s" by (simp add: EndsWith_def)
    have "view (snd (RStrip_str s str)) = take (size_n s - size_n str) (view s)"
      using True le v by (simp add: RStrip_str_def view_RStrip_size)
    moreover have "strip_suffix (view str) (view s) = take (size_n s - size_n str) (view s)"
      using True e v by (simp add: strip_suffix_def length_view)
    ultimately show ?thesis by simp
  next
    case False
    have "view (snd (RStrip_str s str)) = view s"
      using False by (simp add: RStrip_str_def)
    moreover have "strip_suffix (view str) (view s) = view s"
      using False e by (auto simp add: strip_suffix_def)
    ultimately show ?thesis by simp
  qed
qed

lemma valid_RStrip_str: "valid_range s \<Longrightarrow> valid_range (snd (RStrip_str s str))"
  by (simp add: RStrip_str_def valid_RStrip_size)

lemma valid_StringRange_string: "valid_range (StringRange_string p)"
  unfolding StringRange_string_def
  by (rule valid_LAndRStrip) (simp add: valid_range_def)

lemma view_StringRange_string: "view (StringRange_string p) = rstrip_ws (lstrip_ws p)"
  by (simp add: StringRange_string_def view_LAndRStrip valid_range_def) (simp add: view_def)

lemma valid_StringRange_cstr: "valid_range (StringRange_cstr p)"
  unfolding StringRange_cstr_def
  using length_takeWhile_le [of "\<lambda>c. c \<noteq> CHR 0x00" p]
  by (intro valid_LAndRStrip) (simp add: valid_range_def strlen_def)

lemma view_StringRange_cstr:
  "view (StringRange_cstr p) = rstrip_ws (lstrip_ws (takeWhile (\<lambda>c. c \<noteq> CHR 0x00) p))"
proof -
  have "take (length (takeWhile (\<lambda>c. c \<noteq> CHR 0x00) p)) p = takeWhile (\<lambda>c. c \<noteq> CHR 0x00) p"
    by (simp add: takeWhile_eq_take [symmetric])
  then show ?thesis
    using length_takeWhile_le [of "\<lambda>c. c \<noteq> CHR 0x00" p]
    by (simp add: StringRange_cstr_def view_LAndRStrip valid_range_def strlen_def)
       (simp add: view_def)
qed

lemma view_cstr_lparen: "view (StringRange_cstr ''('') = ''(''"
  by (simp add: view_StringRange_cstr rstrip_ws_def lstrip_ws_def isspace_def)

lemma view_cstr_rparen: "view (StringRange_cstr '')'') = '')''"
  by (simp add: view_StringRange_cstr rstrip_ws_def lstrip_ws_def isspace_def)

lemma view_cstr_tensor: "view (StringRange_cstr ''tensor'') = ''tensor''"
  by (simp add: view_StringRange_cstr rstrip_ws_def lstrip_ws_def isspace_def)

lemma valid_ParensWhitespaceStrip:
  "valid_range s \<Longrightarrow> valid_range (ParensWhitespaceStrip s)"
  by (simp add: ParensWhitespaceStrip_def Let_def valid_RStrip valid_RStrip_str
      valid_LAndRStrip valid_LStrip_str valid_LStrip)

lemma view_ParensWhitespaceStrip:
  "valid_range s \<Longrightarrow> view (ParensWhitespaceStrip s) = parens_whitespace_strip_spec (view s)"
  by (simp add: ParensWhitespaceStrip_def Let_def parens_whitespace_strip_spec_def
      view_RStrip view_RStrip_str view_LAndRStrip view_LStrip_str view_LStrip
      valid_RStrip_str valid_LAndRStrip valid_LStrip_str valid_LStrip
      valid_StringRange_cstr view_cstr_lparen view_cstr_rparen)

lemma assignments_table:
  "foldl (\<lambda>m (k, v). AList.update k v m) [] TypesWrapper_assignments = TypesWrapper_assignments"
  by (simp add: TypesWrapper_assignments_def)

lemma TypesWrapper_loop:
  "foldl TypesWrapper_loop_body w ps =
     w\<lparr>tensor_data_type_to_type_str :=
         foldl (\<lambda>m p. AList.update (snd p) (fst p) m) (tensor_data_type_to_type_str w) ps,
       allowed_data_types := allowed_data_types w \<union> set (map fst ps)\<rparr>"
  by (induction ps arbitrary: w) (simp_all add: TypesWrapper_loop_body_def)

lemma type_str_table: "TypeStrToTensorDataType = TypesWrapper_assignments"
  by (simp add: TypeStrToTensorDataType_def GetTypesWrapper_def TypesWrapper_ctor_def
      assignments_table TypesWrapper_loop)

lemma type_code_table:
  "TensorDataTypeToTypeStr = map (\<lambda>p. (snd p, fst p)) TypesWrapper_assignments"
proof -
  have "foldl (\<lambda>m p. AList.update (snd p) (fst p) m) [] TypesWrapper_assignments =
        map (\<lambda>p. (snd p, fst p)) TypesWrapper_assignments"
    by (simp add: TypesWrapper_assignments_def)
  then show ?thesis
    by (simp add: TensorDataTypeToTypeStr_def GetTypesWrapper_def TypesWrapper_ctor_def
      assignments_table TypesWrapper_loop)
qed

lemma allowed_set:
  "GetAllowedDataTypes = set (map fst TypesWrapper_assignments)"
  by (simp add: GetAllowedDataTypes_def GetTypesWrapper_def TypesWrapper_ctor_def
      assignments_table TypesWrapper_loop)

lemma FromString_eq_spec: "FromString type_str = FromString_spec type_str"
proof -
  let ?s = "StringRange_string type_str"
  let ?t = "StringRange_cstr ''tensor''"
  have v: "valid_range ?s" "valid_range ?t"
    by (rule valid_StringRange_string, rule valid_StringRange_cstr)
  have b: "fst (LStrip_str ?s ?t) = (take (length ''tensor'') (view ?s) = ''tensor'')"
    using fst_LStrip_str [OF v] by (simp add: view_cstr_tensor)
  have w: "view (snd (LStrip_str ?s ?t)) = strip_prefix ''tensor'' (view ?s)"
    using view_LStrip_str [OF v] by (simp add: view_cstr_tensor)
  have v1: "valid_range (snd (LStrip_str ?s ?t))"
    by (rule valid_LStrip_str [OF v(1)])
  show ?thesis
    using b w view_ParensWhitespaceStrip [OF v1]
    by (simp add: FromString_def FromString_spec_def element_text_spec_def split_def Let_def
        view_StringRange_string strip_prefix_def)
qed

lemmas table_simps = type_str_table type_code_table allowed_set TypesWrapper_assignments_def

lemmas string_simps = lstrip_ws_def rstrip_ws_def strip_prefix_def strip_suffix_def
  parens_whitespace_strip_spec_def isspace_def

section \<open>The registry is a bijection\<close>

lemma distinct_names: "distinct (map fst TypesWrapper_assignments)"
  by (simp add: TypesWrapper_assignments_def)

lemma distinct_codes: "distinct (map snd TypesWrapper_assignments)"
  by (simp add: TypesWrapper_assignments_def)

lemma swap_set: "(c, n) \<in> set (map (\<lambda>p. (snd p, fst p)) xs) = ((n, c) \<in> set xs)"
  by force

lemma name_to_code_to_name:
  assumes "n \<in> GetAllowedDataTypes"
  shows "\<exists>c. map_of TypeStrToTensorDataType n = Some c \<and> map_of TensorDataTypeToTypeStr c = Some n"
proof -
  from assms obtain c where nc: "(n, c) \<in> set TypesWrapper_assignments"
    by (auto simp add: allowed_set)
  then have "map_of TypesWrapper_assignments n = Some c"
    using distinct_names by (rule_tac map_of_is_SomeI)
  moreover have "distinct (map fst (map (\<lambda>p. (snd p, fst p)) TypesWrapper_assignments))"
    using distinct_codes by (simp add: comp_def)
  then have "map_of (map (\<lambda>p. (snd p, fst p)) TypesWrapper_assignments) c = Some n"
    using nc by (rule_tac map_of_is_SomeI) (simp_all only: swap_set)
  ultimately show ?thesis by (simp only: type_str_table type_code_table) blast
qed

lemma code_to_name_to_code:
  assumes "map_of TensorDataTypeToTypeStr c = Some n"
  shows "map_of TypeStrToTensorDataType n = Some c"
proof -
  from assms have "(c, n) \<in> set (map (\<lambda>p. (snd p, fst p)) TypesWrapper_assignments)"
    unfolding type_code_table by (rule map_of_SomeD)
  then have "(n, c) \<in> set TypesWrapper_assignments" by (simp only: swap_set)
  then show ?thesis unfolding type_str_table using distinct_names
    by (rule_tac map_of_is_SomeI)
qed

lemma valid_name_facts:
  "\<forall>E \<in> set (map fst TypesWrapper_assignments).
     E \<noteq> [] \<and> \<not> isspace (hd E) \<and> \<not> isspace (last E) \<and> hd E \<noteq> CHR ''('' \<and> last E \<noteq> CHR '')''
     \<and> take (length ''tensor'') E \<noteq> ''tensor''"
  by (simp add: TypesWrapper_assignments_def isspace_def)

lemma FromDataTypeString_valid:
  "IsValidDataTypeString E \<Longrightarrow>
   \<exists>c. FromDataTypeString E = Inr c \<and> map_of TypeStrToTensorDataType E = Some c
      \<and> ToDataTypeString c = Inr E"
  using name_to_code_to_name [of E]
  by (auto simp add: FromDataTypeString_def IsValidDataTypeString_def ToDataTypeString_def)

lemma FromDataTypeString_invalid:
  "\<not> IsValidDataTypeString E \<Longrightarrow> FromDataTypeString E = Inl InvalidTypeString"
  by (simp add: FromDataTypeString_def)

text \<open>
  The loop of the constructor visits the pairs of an \<^verbatim>\<open>unordered_map\<close>, in an order that
  the language does not fix. The tables do not depend on it: visiting the pairs in any
  order (even with repetitions) gives the same code-to-name lookup and the same set.
\<close>

lemma loop_table_sound:
  "map_of (foldl (\<lambda>m p. AList.update (snd p) (fst p) m) m ps) c = Some n \<Longrightarrow>
   (n, c) \<in> set ps \<or> map_of m c = Some n"
proof (induction ps arbitrary: m)
  case Nil
  then show ?case by simp
next
  case (Cons p ps)
  from Cons.IH [of "AList.update (snd p) (fst p) m"] Cons.prems
  have "(n, c) \<in> set ps \<or> map_of (AList.update (snd p) (fst p) m) c = Some n" by simp
  then show ?case by (cases p) (auto simp add: update_conv' split: if_splits)
qed

lemma loop_table_keeps:
  "map_of m c \<noteq> None \<Longrightarrow>
   map_of (foldl (\<lambda>m p. AList.update (snd p) (fst p) m) m ps) c \<noteq> None"
  by (induction ps arbitrary: m) (simp_all add: update_conv')

lemma loop_table_complete:
  "(n, c) \<in> set ps \<Longrightarrow>
   map_of (foldl (\<lambda>m p. AList.update (snd p) (fst p) m) m ps) c \<noteq> None"
proof (induction ps arbitrary: m)
  case Nil
  then show ?case by simp
next
  case (Cons p ps)
  show ?case
  proof (cases "p = (n, c)")
    case True
    have "map_of (AList.update c n m) c \<noteq> None" by (simp add: update_conv')
    from loop_table_keeps [OF this] True show ?thesis by simp
  next
    case False
    with Cons.prems have "(n, c) \<in> set ps" by simp
    from Cons.IH [OF this] show ?thesis by simp
  qed
qed

lemma TypesWrapper_loop_any_order:
  assumes "set order = set TypesWrapper_assignments"
  shows "map_of (tensor_data_type_to_type_str
           (foldl TypesWrapper_loop_body
              \<lparr>type_str_to_tensor_data_type = TypesWrapper_assignments,
               tensor_data_type_to_type_str = [], allowed_data_types = {}\<rparr> order))
         = map_of TensorDataTypeToTypeStr"
    and "allowed_data_types
           (foldl TypesWrapper_loop_body
              \<lparr>type_str_to_tensor_data_type = TypesWrapper_assignments,
               tensor_data_type_to_type_str = [], allowed_data_types = {}\<rparr> order)
         = GetAllowedDataTypes"
proof -
  let ?t = "foldl (\<lambda>m p. AList.update (snd p) (fst p) m) [] order"
  have "map_of ?t c = map_of TensorDataTypeToTypeStr c" for c
  proof (cases "map_of TensorDataTypeToTypeStr c")
    case None
    have "map_of ?t c = None"
    proof (rule ccontr)
      assume "map_of ?t c \<noteq> None"
      then obtain n where "map_of ?t c = Some n" by blast
      from loop_table_sound [OF this] assms have "(n, c) \<in> set TypesWrapper_assignments"
        by simp
      then have "map_of TypeStrToTensorDataType n = Some c"
        unfolding type_str_table using distinct_names by (rule_tac map_of_is_SomeI)
      with name_to_code_to_name [of n] None show False
        by (simp add: allowed_set type_str_table) (metis domI dom_map_of_conv_image_fst)
    qed
    with None show ?thesis by simp
  next
    case (Some n)
    from code_to_name_to_code [OF Some] have "(n, c) \<in> set TypesWrapper_assignments"
      unfolding type_str_table by (rule map_of_SomeD)
    with assms have in_order: "(n, c) \<in> set order" by simp
    from loop_table_complete [OF this, of "[]"] obtain n'
      where n': "map_of ?t c = Some n'" by blast
    from loop_table_sound [OF this] assms have "(n', c) \<in> set TypesWrapper_assignments"
      by simp
    then have "(c, n') \<in> set (map (\<lambda>p. (snd p, fst p)) TypesWrapper_assignments)"
      by (simp only: swap_set)
    moreover have "distinct (map fst (map (\<lambda>p. (snd p, fst p)) TypesWrapper_assignments))"
      using distinct_codes by (simp add: comp_def)
    ultimately have "map_of TensorDataTypeToTypeStr c = Some n'"
      unfolding type_code_table by (rule_tac map_of_is_SomeI)
    with Some n' show ?thesis by simp
  qed
  then show "map_of (tensor_data_type_to_type_str
           (foldl TypesWrapper_loop_body
              \<lparr>type_str_to_tensor_data_type = TypesWrapper_assignments,
               tensor_data_type_to_type_str = [], allowed_data_types = {}\<rparr> order))
         = map_of TensorDataTypeToTypeStr"
    by (simp add: TypesWrapper_loop fun_eq_iff)
  show "allowed_data_types
           (foldl TypesWrapper_loop_body
              \<lparr>type_str_to_tensor_data_type = TypesWrapper_assignments,
               tensor_data_type_to_type_str = [], allowed_data_types = {}\<rparr> order)
         = GetAllowedDataTypes"
    using assms by (simp add: TypesWrapper_loop allowed_set)
qed

section \<open>Strips of texts of a known form\<close>

lemma lstrip_ws_spaces: "list_all isspace ws \<Longrightarrow> lstrip_ws (ws @ xs) = lstrip_ws xs"
  by (simp add: lstrip_ws_def list_all_iff)

lemma lstrip_ws_id: "xs = [] \<or> \<not> isspace (hd xs) \<Longrightarrow> lstrip_ws xs = xs"
  by (cases xs) (simp_all add: lstrip_ws_def)

lemma rstrip_ws_spaces: "list_all isspace ws \<Longrightarrow> rstrip_ws (xs @ ws) = rstrip_ws xs"
proof -
  assume "list_all isspace ws"
  then have "dropWhile isspace (rev ws @ rev xs) = dropWhile isspace (rev xs)"
    by (intro dropWhile_append2) (simp add: list_all_iff)
  then show ?thesis by (simp add: rstrip_ws_def)
qed

lemma rstrip_ws_id: "xs = [] \<or> \<not> isspace (last xs) \<Longrightarrow> rstrip_ws xs = xs"
  by (cases xs rule: rev_cases) (simp_all add: rstrip_ws_def)

lemma strip_prefix_hit: "strip_prefix p (p @ xs) = xs"
  by (simp add: strip_prefix_def)

lemma strip_suffix_hit: "strip_suffix p (xs @ p) = xs"
  by (simp add: strip_suffix_def)

lemma strip_prefix_miss: "xs = [] \<or> hd xs \<noteq> c \<Longrightarrow> strip_prefix [c] xs = xs"
  by (cases xs) (auto simp add: strip_prefix_def)

lemma strip_suffix_miss: "xs = [] \<or> last xs \<noteq> c \<Longrightarrow> strip_suffix [c] xs = xs"
  by (cases xs rule: rev_cases) (auto simp add: strip_suffix_def)


lemma lstrip_ws_all: "list_all isspace ws \<Longrightarrow> lstrip_ws ws = []"
  by (simp add: lstrip_ws_def list_all_iff)

lemma rstrip_ws_all: "list_all isspace ws \<Longrightarrow> rstrip_ws ws = []"
  by (simp add: rstrip_ws_def list_all_iff)

lemma rstrip_ws_keep:
  "xs \<noteq> [] \<Longrightarrow> \<not> isspace (last xs) \<Longrightarrow> list_all isspace ws \<Longrightarrow>
   rstrip_ws (ys @ xs @ ws) = ys @ xs"
proof -
  assume a: "xs \<noteq> []" "\<not> isspace (last xs)" "list_all isspace ws"
  have "rstrip_ws ((ys @ xs) @ ws) = rstrip_ws (ys @ xs)"
    using a(3) by (rule rstrip_ws_spaces)
  also have "\<dots> = ys @ xs"
    using a(1,2) by (intro rstrip_ws_id) simp
  finally show ?thesis by simp
qed

lemma parens_whitespace_strip_form:
  assumes ws: "list_all isspace ws0" "list_all isspace ws1" "list_all isspace ws2"
      "list_all isspace ws3"
    and lp: "lp = [] \<and> (e = [] \<or> hd e \<noteq> CHR ''('') \<or> lp = ''(''"
    and rp: "rp = [] \<and> (e = [] \<or> last e \<noteq> CHR '')'') \<or> rp = '')''"
    and e: "e = [] \<or> \<not> isspace (hd e) \<and> \<not> isspace (last e)"
  shows "parens_whitespace_strip_spec (ws0 @ lp @ ws1 @ e @ ws2 @ rp @ ws3) = e"
proof -
  have nl: "\<not> isspace CHR ''(''" and nr: "\<not> isspace CHR '')''" by (simp_all add: isspace_def)
  have s1: "strip_prefix ''('' (lstrip_ws (ws0 @ lp @ ws1 @ e @ ws2 @ rp @ ws3))
            = lstrip_ws (ws1 @ e @ ws2 @ rp @ ws3) \<or> 
            strip_prefix ''('' (lstrip_ws (ws0 @ lp @ ws1 @ e @ ws2 @ rp @ ws3))
            = ws1 @ e @ ws2 @ rp @ ws3"
  proof (cases "lp = []")
    case False
    with lp have l: "lp = ''(''" by simp
    have "lstrip_ws (ws0 @ lp @ ws1 @ e @ ws2 @ rp @ ws3) = ''('' @ ws1 @ e @ ws2 @ rp @ ws3"
      using ws(1) nl by (simp add: l lstrip_ws_spaces) (simp add: lstrip_ws_def)
    then show ?thesis using strip_prefix_hit [of "''(''"] by simp
  next
    case True
    have a: "lstrip_ws (ws0 @ lp @ ws1 @ e @ ws2 @ rp @ ws3) = lstrip_ws (ws1 @ e @ ws2 @ rp @ ws3)"
      using ws(1) by (simp add: True lstrip_ws_spaces)
    have "lstrip_ws (ws1 @ e @ ws2 @ rp @ ws3) = [] \<or> hd (lstrip_ws (ws1 @ e @ ws2 @ rp @ ws3)) \<noteq> CHR ''(''"
    proof (cases "e = []")
      case False
      with e have "lstrip_ws (e @ ws2 @ rp @ ws3) = e @ ws2 @ rp @ ws3"
        by (intro lstrip_ws_id) simp
      with False lp True show ?thesis using ws(2) by (simp add: lstrip_ws_spaces)
    next
      case et: True
      show ?thesis
      proof (cases "rp = []")
        case True
        then have "lstrip_ws (ws1 @ e @ ws2 @ rp @ ws3) = lstrip_ws []"
          using ws by (simp add: et lstrip_ws_spaces) (metis append_Nil2 lstrip_ws_spaces)
        then show ?thesis by (simp add: lstrip_ws_def)
      next
        case False
        with rp have "rp = '')''" by simp
        then have "lstrip_ws (ws1 @ e @ ws2 @ rp @ ws3) = '')'' @ ws3"
          using ws nr by (simp add: et lstrip_ws_spaces) (simp add: lstrip_ws_def)
        then show ?thesis by simp
      qed
    qed
    then show ?thesis using a strip_prefix_miss [of _ "CHR ''(''"] by simp
  qed
  then have s2: "lstrip_ws (strip_prefix ''('' (lstrip_ws (ws0 @ lp @ ws1 @ e @ ws2 @ rp @ ws3)))
     = lstrip_ws (e @ ws2 @ rp @ ws3)"
    using ws(2) by (auto simp add: lstrip_ws_spaces) (simp_all add: lstrip_ws_def)
  have s5: "rstrip_ws (strip_suffix '')'' (rstrip_ws (lstrip_ws (e @ ws2 @ rp @ ws3)))) = e"
  proof (cases "e = []")
    case False
    with e have ne: "\<not> isspace (hd e)" "\<not> isspace (last e)" by simp_all
    have y: "lstrip_ws (e @ ws2 @ rp @ ws3) = e @ ws2 @ rp @ ws3"
      using False ne by (intro lstrip_ws_id) simp
    show ?thesis
    proof (cases "rp = []")
      case True
      have "list_all isspace (ws2 @ ws3)" using ws by simp
      then have "rstrip_ws ([] @ e @ (ws2 @ ws3)) = [] @ e"
        using False ne by (intro rstrip_ws_keep)
      moreover have "strip_suffix '')'' e = e"
        using rp True False by (intro strip_suffix_miss) simp
      moreover have "rstrip_ws e = e" using ne by (intro rstrip_ws_id) simp
      ultimately show ?thesis using y by (simp add: True)
    next
      case nr': False
      with rp have r: "rp = '')''" by simp
      have "rstrip_ws ((e @ ws2) @ '')'' @ ws3) = (e @ ws2) @ '')''"
        using nr ws(4) by (intro rstrip_ws_keep) simp_all
      moreover have "strip_suffix '')'' ((e @ ws2) @ '')'') = e @ ws2"
        by (rule strip_suffix_hit)
      moreover have "rstrip_ws ([] @ e @ ws2) = [] @ e"
        using False ne ws(3) by (intro rstrip_ws_keep)
      ultimately show ?thesis using y by (simp add: r)
    qed
  next
    case et: True
    show ?thesis
    proof (cases "rp = []")
      case True
      have "list_all isspace (ws2 @ ws3)" using ws by simp
      then have "lstrip_ws (ws2 @ ws3) = []" by (rule lstrip_ws_all)
      then show ?thesis
        by (simp add: et True) (simp add: rstrip_ws_def strip_suffix_def)
    next
      case nr': False
      with rp have r: "rp = '')''" by simp
      have "lstrip_ws (ws2 @ '')'' @ ws3) = '')'' @ ws3"
        using ws(3) nr by (simp add: lstrip_ws_spaces) (simp add: lstrip_ws_def)
      moreover have "rstrip_ws ([] @ '')'' @ ws3) = [] @ '')''"
        using nr ws(4) by (intro rstrip_ws_keep) simp_all
      moreover have "strip_suffix '')'' ([] @ '')'') = []"
        by (rule strip_suffix_hit)
      ultimately show ?thesis by (simp add: et r) (simp add: rstrip_ws_def)
    qed
  qed
  show ?thesis
    unfolding parens_whitespace_strip_spec_def s2 by (rule s5)
qed

lemma valid_name_shape:
  assumes "IsValidDataTypeString E"
  shows "E \<noteq> []" "\<not> isspace (hd E)" "\<not> isspace (last E)" "hd E \<noteq> CHR ''(''"
    "last E \<noteq> CHR '')''" "take (length ''tensor'') E \<noteq> ''tensor''"
  using assms valid_name_facts [THEN bspec, of E]
  by (simp_all only: IsValidDataTypeString_def allowed_set) simp_all

lemma element_text_scalar_form:
  assumes E: "IsValidDataTypeString E"
    and ws: "list_all isspace wsa" "list_all isspace wsb"
  shows "rstrip_ws (lstrip_ws (wsa @ E @ wsb)) = E"
    and "element_text_spec (wsa @ E @ wsb) = E"
proof -
  note n = valid_name_shape [OF E]
  have "lstrip_ws (wsa @ E @ wsb) = E @ wsb"
    using ws(1) n(1,2) by (simp add: lstrip_ws_spaces) (intro lstrip_ws_id, simp)
  moreover have "rstrip_ws ([] @ E @ wsb) = [] @ E"
    using n(1,3) ws(2) by (intro rstrip_ws_keep)
  ultimately show t: "rstrip_ws (lstrip_ws (wsa @ E @ wsb)) = E" by simp
  show "element_text_spec (wsa @ E @ wsb) = E"
    using n(6) by (simp add: element_text_spec_def t Let_def del: list.size)
qed

lemma element_text_tensor_form:
  assumes E: "IsValidDataTypeString E"
    and ws: "list_all isspace wsa" "list_all isspace ws0" "list_all isspace ws1"
      "list_all isspace ws2" "list_all isspace wsb"
    and lp: "lp = [] \<or> lp = ''(''"
    and rp: "rp = [] \<or> rp = '')''"
  shows "take (length ''tensor'') (rstrip_ws (lstrip_ws
           (wsa @ ''tensor'' @ ws0 @ lp @ ws1 @ E @ ws2 @ rp @ wsb))) = ''tensor''"
    and "element_text_spec (wsa @ ''tensor'' @ ws0 @ lp @ ws1 @ E @ ws2 @ rp @ wsb) = E"
proof -
  note n = valid_name_shape [OF E]
  let ?s = "wsa @ ''tensor'' @ ws0 @ lp @ ws1 @ E @ ws2 @ rp @ wsb"
  have nr: "\<not> isspace CHR '')''" by (simp add: isspace_def)
  have l: "lstrip_ws ?s = ''tensor'' @ ws0 @ lp @ ws1 @ E @ ws2 @ rp @ wsb"
    using ws(1) by (simp add: lstrip_ws_spaces) (simp add: lstrip_ws_def isspace_def)
  obtain w where w: "list_all isspace w"
    and t: "rstrip_ws (lstrip_ws ?s) = ''tensor'' @ (ws0 @ lp @ ws1 @ E @ w @ rp @ [])"
  proof (cases "rp = []")
    case True
    have "list_all isspace (ws2 @ wsb)" using ws by simp
    then have "rstrip_ws ((''tensor'' @ ws0 @ lp @ ws1) @ E @ (ws2 @ wsb))
               = (''tensor'' @ ws0 @ lp @ ws1) @ E"
      using n(1,3) by (intro rstrip_ws_keep)
    then have "rstrip_ws (lstrip_ws ?s) = ''tensor'' @ (ws0 @ lp @ ws1 @ E @ [] @ rp @ [])"
      using l by (simp add: True)
    then show ?thesis using that [of "[]"] by simp
  next
    case False
    with rp have r: "rp = '')''" by simp
    have "rstrip_ws ((''tensor'' @ ws0 @ lp @ ws1 @ E @ ws2) @ '')'' @ wsb)
               = (''tensor'' @ ws0 @ lp @ ws1 @ E @ ws2) @ '')''"
      using nr ws(5) by (intro rstrip_ws_keep) simp_all
    then have "rstrip_ws (lstrip_ws ?s) = ''tensor'' @ (ws0 @ lp @ ws1 @ E @ ws2 @ rp @ [])"
      using l by (simp add: r)
    then show ?thesis using that [of ws2] ws(4) by simp
  qed
  show "take (length ''tensor'') (rstrip_ws (lstrip_ws ?s)) = ''tensor''"
    unfolding t by simp
  have "parens_whitespace_strip_spec (ws0 @ lp @ ws1 @ E @ w @ rp @ []) = E"
    using ws(2,3) w lp rp n by (intro parens_whitespace_strip_form) auto
  then show "element_text_spec ?s = E"
    unfolding element_text_spec_def t by (simp add: Let_def)
qed

lemma FromString_scalar_form:
  assumes "IsValidDataTypeString E" "list_all isspace wsa" "list_all isspace wsb"
    and "map_of TypeStrToTensorDataType E = Some c"
  shows "FromString (wsa @ E @ wsb) = Inr (kTensorType \<lparr>elem_type = c, shape = Some []\<rparr>)"
  using element_text_scalar_form [OF assms(1-3)] FromDataTypeString_valid [OF assms(1)]
    assms(4) valid_name_shape(6) [OF assms(1)]
  by (simp add: FromString_eq_spec FromString_spec_def del: list.size)

lemma FromString_tensor_form:
  assumes "IsValidDataTypeString E"
    and "list_all isspace wsa" "list_all isspace ws0" "list_all isspace ws1"
      "list_all isspace ws2" "list_all isspace wsb"
    and "lp = [] \<or> lp = ''(''"
    and "rp = [] \<or> rp = '')''"
    and "map_of TypeStrToTensorDataType E = Some c"
  shows "FromString (wsa @ ''tensor'' @ ws0 @ lp @ ws1 @ E @ ws2 @ rp @ wsb)
         = Inr (kTensorType \<lparr>elem_type = c, shape = None\<rparr>)"
  using element_text_tensor_form [OF assms(1-8)] FromDataTypeString_valid [OF assms(1)]
    assms(9)
  by (simp add: FromString_eq_spec FromString_spec_def del: list.size)

section \<open>The captured range\<close>

lemma narrows_refl: "narrows s s"
  by (simp add: narrows_def)

lemma narrows_trans [trans]: "narrows s s' \<Longrightarrow> narrows s' s'' \<Longrightarrow> narrows s s''"
  by (auto simp add: narrows_def)

lemma narrows_LStrip_size: "narrows s (snd (LStrip_size s n))"
  by (simp add: narrows_def LStrip_size_def)

lemma narrows_RStrip_size: "narrows s (snd (RStrip_size s n))"
  by (simp add: narrows_def RStrip_size_def)

lemma narrows_LStrip: "narrows s (snd (LStrip s))"
  by (simp add: LStrip_def Let_def narrows_LStrip_size narrows_refl)

lemma narrows_RStrip: "narrows s (snd (RStrip s))"
  by (simp add: RStrip_def Let_def narrows_RStrip_size narrows_refl)

lemma narrows_LStrip_str: "narrows s (snd (LStrip_str s str))"
  by (simp add: LStrip_str_def narrows_LStrip_size narrows_refl)

lemma narrows_RStrip_str: "narrows s (snd (RStrip_str s str))"
  by (simp add: RStrip_str_def narrows_RStrip_size narrows_refl)

lemma narrows_LAndRStrip: "narrows s (snd (LAndRStrip s))"
  using narrows_trans [OF narrows_LStrip narrows_RStrip]
  by (simp add: LAndRStrip_def split_def Let_def)

lemma narrows_ParensWhitespaceStrip: "narrows s (ParensWhitespaceStrip s)"
proof -
  let ?s1 = "snd (LStrip s)"
  let ?s2 = "snd (LStrip_str ?s1 (StringRange_cstr ''(''))"
  let ?s3 = "snd (LAndRStrip ?s2)"
  let ?s4 = "snd (RStrip_str ?s3 (StringRange_cstr '')''))"
  let ?s5 = "snd (RStrip ?s4)"
  have "narrows s ?s1" by (rule narrows_LStrip)
  also have "narrows ?s1 ?s2" by (rule narrows_LStrip_str)
  also have "narrows ?s2 ?s3" by (rule narrows_LAndRStrip)
  also have "narrows ?s3 ?s4" by (rule narrows_RStrip_str)
  also have "narrows ?s4 ?s5" by (rule narrows_RStrip)
  finally show ?thesis by (simp add: ParensWhitespaceStrip_def Let_def)
qed

lemma narrows_strip: "narrows s (strip op s)"
  by (cases op) (simp_all add: narrows_LStrip narrows_LStrip_size narrows_LStrip_str
      narrows_RStrip narrows_RStrip_size narrows_RStrip_str narrows_LAndRStrip
      narrows_ParensWhitespaceStrip)

lemma narrows_strips: "narrows s (strips ops s)"
  unfolding strips_def
proof (induction ops arbitrary: s)
  case Nil
  show ?case by (simp add: narrows_refl)
next
  case (Cons op ops)
  show ?case using narrows_trans [OF narrows_strip Cons.IH] by simp
qed

lemma view_StringRange_data_size:
  "p + n \<le> length b \<Longrightarrow>
   view (StringRange_data_size b p n) = rstrip_ws (lstrip_ws (take n (drop p b)))"
  by (simp add: StringRange_data_size_def view_LAndRStrip valid_range_def) (simp add: view_def)

lemma LStrip_eval:
  "valid_range s \<Longrightarrow> length (takeWhile isspace (view s)) = n \<Longrightarrow>
   LStrip s = (if n > 0 then LStrip_size s n else (False, s))"
  by (simp add: LStrip_def LStrip_loop_0)

lemma RStrip_eval:
  "valid_range s \<Longrightarrow> length (takeWhile isspace (rev (view s))) = n \<Longrightarrow>
   RStrip s = (if n > 0 then RStrip_size s n else (False, s))"
  by (simp add: RStrip_def RStrip_loop_0)

lemma capture_example_start:
  "capture_example = \<lparr>buf = ''ab cd'', data_p = 0, size_n = 5, start_p = 0, end_p = 0\<rparr>"
proof -
  let ?r0 = "\<lparr>buf = ''ab cd'', data_p = 0, size_n = 5, start_p = 0, end_p = 0\<rparr>"
  have v: "valid_range ?r0" by (simp add: valid_range_def)
  have "LStrip ?r0 = (False, ?r0)"
    using LStrip_eval [OF v, of 0] by (simp add: view_def isspace_def)
  moreover have "RStrip ?r0 = (False, ?r0)"
    using RStrip_eval [OF v, of 0] by (simp add: view_def isspace_def)
  ultimately have "LAndRStrip ?r0 = (False, ?r0)"
    by (simp add: LAndRStrip_def)
  moreover have "length ''ab cd'' = 5" by simp
  ultimately show ?thesis
    by (simp only: capture_example_def StringRange_string_def) (simp add: RestartCapture_def)
qed

lemma capture_example_end:
  "strips capture_example_ops capture_example
     = \<lparr>buf = ''ab cd'', data_p = 3, size_n = 2, start_p = 0, end_p = 3\<rparr>"
proof -
  let ?r0 = "\<lparr>buf = ''ab cd'', data_p = 0, size_n = 5, start_p = 0, end_p = 0\<rparr>"
  let ?r1 = "\<lparr>buf = ''ab cd'', data_p = 2, size_n = 3, start_p = 0, end_p = 2\<rparr>"
  let ?r2 = "\<lparr>buf = ''ab cd'', data_p = 3, size_n = 2, start_p = 0, end_p = 3\<rparr>"
  have v: "valid_range ?r1" by (simp add: valid_range_def)
  have "snd (LStrip_size ?r0 2) = ?r1"
    by (simp add: LStrip_size_def)
  moreover have "LStrip ?r1 = LStrip_size ?r1 1"
    using LStrip_eval [OF v, of 1] by (simp add: view_def isspace_def)
  moreover have "snd (LStrip_size ?r1 1) = ?r2"
    by (simp add: LStrip_size_def)
  ultimately show ?thesis
    by (simp add: capture_example_start strips_def capture_example_ops_def)
qed


text \<open>
  What the code computes after a reset and any strips: the window from \<^verbatim>\<open>start_\<close> to
  \<^verbatim>\<open>end_\<close> holds exactly the consumed bytes, and the range that GetCaptured returns has
  passed through the constructor, which removes the whitespace at both ends of them.
\<close>

lemma GetCaptured_window_and_text:
  assumes "valid_range s"
  shows "start_p (strips ops (RestartCapture s)) = data_p (RestartCapture s)
       \<and> end_p (strips ops (RestartCapture s)) = data_p (strips ops (RestartCapture s))
       \<and> view (GetCaptured (strips ops (RestartCapture s)))
           = rstrip_ws (lstrip_ws
               (consumed_text (RestartCapture s) (strips ops (RestartCapture s))))"
proof -
  let ?s0 = "RestartCapture s" and ?s1 = "strips ops (RestartCapture s)"
  have n: "narrows ?s0 ?s1" by (rule narrows_strips)
  have s0: "buf ?s0 = buf s" "data_p ?s0 = data_p s" "size_n ?s0 = size_n s"
    "start_p ?s0 = data_p s" "end_p ?s0 = data_p s"
    by (simp_all add: RestartCapture_def)
  from n s0 have f: "buf ?s1 = buf s" "start_p ?s1 = data_p s" "end_p ?s1 = data_p ?s1"
    "data_p s \<le> data_p ?s1" "data_p ?s1 \<le> data_p s + size_n s"
    by (simp_all add: narrows_def)
  have "data_p s + (data_p ?s1 - data_p s) \<le> length (buf s)"
    using f(4,5) assms by (simp add: valid_range_def)
  then have "view (GetCaptured ?s1)
      = rstrip_ws (lstrip_ws (take (data_p ?s1 - data_p s) (drop (data_p s) (buf s))))"
    by (simp add: GetCaptured_def f view_StringRange_data_size)
  moreover have "consumed_text ?s0 ?s1 = take (data_p ?s1 - data_p s) (drop (data_p s) (buf s))"
    using f(4,5) by (simp add: consumed_text_def view_def s0 min_def)
  ultimately show ?thesis using f s0 by simp
qed

section \<open>The table of interned types\<close>

lemma find_node_append:
  "find_node m k = Some i \<Longrightarrow> find_node (m @ x) k = Some i"
  by (induction m arbitrary: i) (auto split: if_splits option.splits)

lemma find_node_new:
  "find_node m k = None \<Longrightarrow> find_node (m @ [(k, p)]) k = Some (length m)"
  by (induction m) (auto split: if_splits option.splits)

lemma find_node_key:
  "find_node m k = Some i \<Longrightarrow> i < length m \<and> fst (m ! i) = k"
  by (induction m arbitrary: i) (auto split: if_splits option.splits)

lemma ToType_found:
  assumes "ToString p [] [] = Inr c" "find_node m c = Some h"
  shows "ToType m p = Inr (h, m)"
  using assms by (simp add: ToType_def)

lemma ToType_fresh:
  assumes "ToString p [] [] = Inr c" "find_node m c = None"
  shows "ToType m p = Inr (length m, m @ [(c, p)])"
  using assms find_node_new [OF assms(2), of p] by (simp add: ToType_def)

lemma ToType_extends:
  "ToType m p = Inr (h, m1) \<Longrightarrow> \<exists>x. m1 = m @ x"
  by (auto simp add: ToType_def Let_def split: sum.splits if_splits)

lemma ToType_str_extends:
  "ToType_str m s = Inr (h, m1) \<Longrightarrow> \<exists>x. m1 = m @ x"
  by (auto simp add: ToType_str_def split: sum.splits dest: ToType_extends)

lemma ToType_strs_extends:
  "ToType_strs m ss = Inr m2 \<Longrightarrow> \<exists>x. m2 = m @ x"
proof (induction ss arbitrary: m)
  case Nil
  then show ?case by simp
next
  case (Cons s ss)
  then obtain h m1 where a: "ToType_str m s = Inr (h, m1)" and b: "ToType_strs m1 ss = Inr m2"
    by (auto split: sum.splits)
  from ToType_str_extends [OF a] Cons.IH [OF b] show ?case by auto
qed

lemma normalize_type_str_Inr:
  "normalize_type_str s = Inr c \<Longrightarrow> \<exists>p. FromString s = Inr p \<and> ToString p [] [] = Inr c"
  by (auto simp add: normalize_type_str_def split: sum.splits)

lemma ToType_str_found:
  assumes "normalize_type_str s = Inr c" "find_node m c = Some h"
  shows "ToType_str m s = Inr (h, m)"
  using normalize_type_str_Inr [OF assms(1)] assms(2)
  by (auto simp add: ToType_str_def ToType_found)

lemma normalize_type_str_spaced: "normalize_type_str '' tensor( float ) '' = Inr ''tensor(float)''"
  by (simp add: normalize_type_str_def FromString_eq_spec FromString_spec_def element_text_spec_def
      FromDataTypeString_def IsValidDataTypeString_def ToDataTypeString_def
      table_simps string_simps)

lemma normalize_type_str_plain: "normalize_type_str ''tensor(float)'' = Inr ''tensor(float)''"
  by (simp add: normalize_type_str_def FromString_eq_spec FromString_spec_def element_text_spec_def
      FromDataTypeString_def IsValidDataTypeString_def ToDataTypeString_def
      table_simps string_simps)

lemma FromString_spaced:
  "FromString '' tensor( float ) '' = Inr (kTensorType \<lparr>elem_type = FLOAT, shape = None\<rparr>)"
  by (simp add: FromString_eq_spec FromString_spec_def element_text_spec_def
      FromDataTypeString_def IsValidDataTypeString_def table_simps string_simps)

lemma FromString_int32:
  "FromString ''int32'' = Inr (kTensorType \<lparr>elem_type = INT32, shape = Some []\<rparr>)"
  by (simp add: FromString_eq_spec FromString_spec_def element_text_spec_def
      FromDataTypeString_def IsValidDataTypeString_def table_simps string_simps)


section \<open>The claims\<close>

text \<open>
  Claim C1. When two input strings normalise (FromString, then ToString) to the same
  canonical string \<open>c\<close>, interning the first returns a handle \<open>h\<close> and interning the
  second afterwards returns the same \<open>h\<close>, also after any sequence of successful
  interning calls in between. The first call leaves the table as it is when \<open>c\<close> is
  already a key and appends exactly one node for \<open>c\<close> when it is not; the second call
  never changes the table.
\<close>

theorem intern_same_handle:
  assumes "normalize_type_str s1 = Inr c" and "normalize_type_str s2 = Inr c"
  shows "\<exists>h m1. ToType_str m s1 = Inr (h, m1)
           \<and> (find_node m c \<noteq> None \<longrightarrow> m1 = m)
           \<and> (find_node m c = None \<longrightarrow> (\<exists>p. m1 = m @ [(c, p)]))
           \<and> find_node m1 c = Some h
           \<and> ToType_str m1 s2 = Inr (h, m1)
           \<and> (\<forall>between m2. ToType_strs m1 between = Inr m2 \<longrightarrow>
                 ToType_str m2 s2 = Inr (h, m2))"
proof -
  from normalize_type_str_Inr [OF assms(1)] obtain p
    where p: "FromString s1 = Inr p" "ToString p [] [] = Inr c" by blast
  obtain h m1 where r: "ToType_str m s1 = Inr (h, m1)" "find_node m1 c = Some h"
    "find_node m c \<noteq> None \<longrightarrow> m1 = m" "find_node m c = None \<longrightarrow> m1 = m @ [(c, p)]"
  proof (cases "find_node m c")
    case None
    with p show ?thesis
      using that [of "length m" "m @ [(c, p)]"] find_node_new [OF None, of p]
      by (simp add: ToType_str_def ToType_fresh)
  next
    case (Some h)
    with p show ?thesis
      using that [of h m] by (simp add: ToType_str_def ToType_found)
  qed
  have later: "ToType_str m2 s2 = Inr (h, m2)" if "ToType_strs m1 between = Inr m2" for between m2
  proof -
    from ToType_strs_extends [OF that] obtain x where "m2 = m1 @ x" by blast
    with r(2) have "find_node m2 c = Some h" by (simp add: find_node_append)
    with assms(2) show ?thesis by (rule ToType_str_found)
  qed
  have now: "ToType_str m1 s2 = Inr (h, m1)"
    using assms(2) r(2) by (rule ToType_str_found)
  show ?thesis
  proof (intro exI conjI allI impI)
    show "ToType_str m s1 = Inr (h, m1)" by (rule r(1))
    show "m1 = m" if "find_node m c \<noteq> None" using that r(3) by simp
    show "m1 = m @ [(c, p)]" if "find_node m c = None" using that r(4) by simp
    show "find_node m1 c = Some h" by (rule r(2))
    show "ToType_str m1 s2 = Inr (h, m1)" by (rule now)
    show "ToType_str m2 s2 = Inr (h, m2)" if "ToType_strs m1 between = Inr m2" for between m2
      using that by (rule later)
  qed
qed

theorem intern_same_handle_witness:
  "normalize_type_str '' tensor( float ) '' = Inr ''tensor(float)''
   \<and> normalize_type_str ''tensor(float)'' = Inr ''tensor(float)''
   \<and> ToType_str [] '' tensor( float ) ''
       = Inr (0, [(''tensor(float)'', kTensorType \<lparr>elem_type = FLOAT, shape = None\<rparr>)])
   \<and> ToType_str [(''tensor(float)'', kTensorType \<lparr>elem_type = FLOAT, shape = None\<rparr>)]
         ''tensor(float)''
       = Inr (0, [(''tensor(float)'', kTensorType \<lparr>elem_type = FLOAT, shape = None\<rparr>)])
   \<and> ToType_strs [(''tensor(float)'', kTensorType \<lparr>elem_type = FLOAT, shape = None\<rparr>)]
         [''int32'']
       = Inr [(''tensor(float)'', kTensorType \<lparr>elem_type = FLOAT, shape = None\<rparr>),
              (''int32'', kTensorType \<lparr>elem_type = INT32, shape = Some []\<rparr>)]
   \<and> ToType_str [(''tensor(float)'', kTensorType \<lparr>elem_type = FLOAT, shape = None\<rparr>),
                   (''int32'', kTensorType \<lparr>elem_type = INT32, shape = Some []\<rparr>)]
         ''tensor(float)''
       = Inr (0, [(''tensor(float)'', kTensorType \<lparr>elem_type = FLOAT, shape = None\<rparr>),
                  (''int32'', kTensorType \<lparr>elem_type = INT32, shape = Some []\<rparr>)])"
proof -
  let ?T = "(''tensor(float)'', kTensorType \<lparr>elem_type = FLOAT, shape = None\<rparr>)"
  let ?I = "(''int32'', kTensorType \<lparr>elem_type = INT32, shape = Some []\<rparr>)"
  from intern_same_handle [OF normalize_type_str_spaced normalize_type_str_plain, of "[]"]
  obtain h m1 where r: "ToType_str [] '' tensor( float ) '' = Inr (h, m1)"
     "ToType_str m1 ''tensor(float)'' = Inr (h, m1)"
     "\<forall>between m2. ToType_strs m1 between = Inr m2 \<longrightarrow>
        ToType_str m2 ''tensor(float)'' = Inr (h, m2)"
    by auto
  have e: "ToType_str [] '' tensor( float ) '' = Inr (0, [?T])"
    using normalize_type_str_spaced
    by (simp add: ToType_str_def ToType_def normalize_type_str_def FromString_spaced)
  with r(1) have hm: "h = 0" "m1 = [?T]" by simp_all
  have b: "ToType_strs [?T] [''int32''] = Inr [?T, ?I]"
    by (simp add: ToType_str_def ToType_def FromString_int32 ToDataTypeString_def table_simps)
  from r(3) b have "ToType_str [?T, ?I] ''tensor(float)'' = Inr (0, [?T, ?I])"
    unfolding hm by blast
  with e b r(2) show ?thesis
    unfolding hm using normalize_type_str_spaced normalize_type_str_plain by simp
qed

text \<open>
  Claim C2. For every element name \<open>E\<close> of the registry, parsing \<open>E\<close> succeeds and
  formatting the result with the default empty decorations gives \<open>E\<close> back, and parsing
  \<open>tensor(E)\<close> succeeds and formatting the result gives \<open>tensor(E)\<close> back.
\<close>

theorem round_trip_canonical_names:
  assumes "IsValidDataTypeString E"
  shows "(\<exists>p. FromString E = Inr p \<and> ToString p [] [] = Inr E)
       \<and> (\<exists>p. FromString (''tensor('' @ E @ '')'') = Inr p
              \<and> ToString p [] [] = Inr (''tensor('' @ E @ '')''))"
proof -
  from FromDataTypeString_valid [OF assms] obtain c
    where c: "map_of TypeStrToTensorDataType E = Some c" "ToDataTypeString c = Inr E"
    by blast
  have "FromString ([] @ E @ []) = Inr (kTensorType \<lparr>elem_type = c, shape = Some []\<rparr>)"
    using assms c(1) by (intro FromString_scalar_form) simp_all
  moreover have "FromString ([] @ ''tensor'' @ [] @ ''('' @ [] @ E @ [] @ '')'' @ [])
      = Inr (kTensorType \<lparr>elem_type = c, shape = None\<rparr>)"
    using assms c(1) by (intro FromString_tensor_form) simp_all
  ultimately show ?thesis using c(2) by simp
qed

theorem round_trip_canonical_names_witness:
  "IsValidDataTypeString ''uint16''
   \<and> (\<exists>p. FromString ''uint16'' = Inr p \<and> ToString p [] [] = Inr ''uint16'')
   \<and> (\<exists>p. FromString ''tensor(uint16)'' = Inr p \<and> ToString p [] [] = Inr ''tensor(uint16)'')"
proof -
  have v: "IsValidDataTypeString ''uint16''"
    by (simp add: IsValidDataTypeString_def table_simps)
  show ?thesis using v round_trip_canonical_names [OF v] by simp
qed

text \<open>
  Claim C3. Parsing \<open>float\<close> yields a tensor descriptor whose shape is present with no
  dimension, parsing \<open>tensor(float)\<close> yields a tensor descriptor without a shape, and the
  two descriptors are different values, although both carry the element type FLOAT.
\<close>

theorem scalar_and_tensor_descriptors_differ:
  "FromString ''float'' = Inr (kTensorType \<lparr>elem_type = FLOAT, shape = Some []\<rparr>)
   \<and> FromString ''tensor(float)'' = Inr (kTensorType \<lparr>elem_type = FLOAT, shape = None\<rparr>)
   \<and> FromString ''float'' \<noteq> FromString ''tensor(float)''"
  by (simp add: FromString_eq_spec FromString_spec_def element_text_spec_def
      FromDataTypeString_def IsValidDataTypeString_def table_simps string_simps)

text \<open>
  Claim C4. When the trimmed text of the input, after the optional unwrapping of
  \<open>tensor(...)\<close>, is not in the validity set of the registry, parsing fails with
  InvalidTypeString: it neither succeeds nor produces a descriptor. The witness is the
  two inputs \<open>tensor(notatype)\<close> and \<open>notatype\<close>.
\<close>

theorem parse_rejects_unknown_element:
  assumes "\<not> IsValidDataTypeString (element_text_spec type_str)"
  shows "FromString type_str = Inl InvalidTypeString"
  using FromDataTypeString_invalid [OF assms]
  by (simp add: FromString_eq_spec FromString_spec_def)

theorem parse_rejects_unknown_element_witness:
  "\<not> IsValidDataTypeString (element_text_spec ''tensor(notatype)'')
   \<and> FromString ''tensor(notatype)'' = Inl InvalidTypeString
   \<and> \<not> IsValidDataTypeString (element_text_spec ''notatype'')
   \<and> FromString ''notatype'' = Inl InvalidTypeString"
proof -
  have a: "\<not> IsValidDataTypeString (element_text_spec ''tensor(notatype)'')"
    by (simp add: element_text_spec_def IsValidDataTypeString_def table_simps string_simps)
  have b: "\<not> IsValidDataTypeString (element_text_spec ''notatype'')"
    by (simp add: element_text_spec_def IsValidDataTypeString_def table_simps string_simps)
  show ?thesis
    using a b parse_rejects_unknown_element [OF a] parse_rejects_unknown_element [OF b]
    by simp
qed

text \<open>
  Claim C5. For a tensor descriptor whose element code has the name \<open>nm\<close>, formatting
  with the decorations \<open>left\<close> and \<open>right\<close> returns \<open>left @ nm @ right\<close> when the shape is
  present with rank 0, and \<open>left @ tensor(nm) @ right\<close> for every other tensor descriptor;
  in both cases the result is the undecorated string with \<open>left\<close> before it and \<open>right\<close>
  after it, once.
\<close>

theorem format_wraps_once:
  assumes "ToDataTypeString (elem_type t) = Inr nm"
  shows "ToString (kTensorType t) left right =
           Inr (if shape t = Some [] then left @ nm @ right
                else left @ ''tensor('' @ nm @ '')'' @ right)
       \<and> (\<exists>base. ToString (kTensorType t) [] [] = Inr base
              \<and> ToString (kTensorType t) left right = Inr (left @ base @ right))"
  using assms by (cases "shape t") auto

theorem format_wraps_once_witness:
  "ToDataTypeString (elem_type \<lparr>elem_type = INT64, shape = Some []\<rparr>) = Inr ''int64''
   \<and> ToString (kTensorType \<lparr>elem_type = INT64, shape = Some []\<rparr>) ''('' '')'' = Inr ''(int64)''
   \<and> ToDataTypeString (elem_type \<lparr>elem_type = INT64, shape = None\<rparr>) = Inr ''int64''
   \<and> ToString (kTensorType \<lparr>elem_type = INT64, shape = None\<rparr>) ''('' '')''
       = Inr ''(tensor(int64))''
   \<and> ToString (kTensorType \<lparr>elem_type = INT64, shape = Some [2, 3]\<rparr>) ''('' '')''
       = Inr ''(tensor(int64))''"
proof -
  have a: "ToDataTypeString (elem_type \<lparr>elem_type = INT64, shape = Some []\<rparr>) = Inr ''int64''"
    and b: "ToDataTypeString (elem_type \<lparr>elem_type = INT64, shape = None\<rparr>) = Inr ''int64''"
    and c: "ToDataTypeString (elem_type \<lparr>elem_type = INT64, shape = Some [2, 3]\<rparr>) = Inr ''int64''"
    by (simp_all add: ToDataTypeString_def table_simps)
  show ?thesis
    using a b format_wraps_once [OF a, of "''(''" "'')''"]
      format_wraps_once [OF b, of "''(''" "'')''"]
      format_wraps_once [OF c, of "''(''" "'')''"]
    by simp
qed

text \<open>
  Claim C6. On every valid range, ParensWhitespaceStrip leaves the text that results from
  these five steps, each applied whether or not it removes anything, in this order: strip
  whitespace on the left, strip one leading parenthesis if there is one, strip whitespace
  on both sides, strip one trailing parenthesis if there is one, strip whitespace on the
  right. So when the text of the range is an optional opening parenthesis, optional
  whitespace, an element text without whitespace at its ends, optional whitespace and an
  optional closing parenthesis (where an absent parenthesis is not taken from the element
  text itself), exactly the element text is left.
\<close>

theorem ParensWhitespaceStrip_sequence:
  assumes "valid_range s"
  shows "view (ParensWhitespaceStrip s) =
           rstrip_ws (strip_suffix '')''
             (rstrip_ws (lstrip_ws (strip_prefix ''('' (lstrip_ws (view s))))))
       \<and> (\<forall>lp ws1 e ws2 rp.
             view s = lp @ ws1 @ e @ ws2 @ rp
             \<and> (lp = ''('' \<or> lp = [] \<and> (e = [] \<or> hd e \<noteq> CHR ''(''))
             \<and> (rp = '')'' \<or> rp = [] \<and> (e = [] \<or> last e \<noteq> CHR '')''))
             \<and> list_all isspace ws1 \<and> list_all isspace ws2
             \<and> (e = [] \<or> \<not> isspace (hd e) \<and> \<not> isspace (last e))
             \<longrightarrow> view (ParensWhitespaceStrip s) = e)"
proof (intro conjI allI impI)
  show "view (ParensWhitespaceStrip s) =
           rstrip_ws (strip_suffix '')''
             (rstrip_ws (lstrip_ws (strip_prefix ''('' (lstrip_ws (view s))))))"
    using view_ParensWhitespaceStrip [OF assms]
    by (simp add: parens_whitespace_strip_spec_def)
next
  fix lp ws1 e ws2 rp
  assume a: "view s = lp @ ws1 @ e @ ws2 @ rp
             \<and> (lp = ''('' \<or> lp = [] \<and> (e = [] \<or> hd e \<noteq> CHR ''(''))
             \<and> (rp = '')'' \<or> rp = [] \<and> (e = [] \<or> last e \<noteq> CHR '')''))
             \<and> list_all isspace ws1 \<and> list_all isspace ws2
             \<and> (e = [] \<or> \<not> isspace (hd e) \<and> \<not> isspace (last e))"
  then have "parens_whitespace_strip_spec ([] @ lp @ ws1 @ e @ ws2 @ rp @ []) = e"
    by (intro parens_whitespace_strip_form) auto
  with a show "view (ParensWhitespaceStrip s) = e"
    using view_ParensWhitespaceStrip [OF assms] by simp
qed

theorem ParensWhitespaceStrip_sequence_witness:
  "valid_range \<lparr>buf = ''tensor( float )'', data_p = 6, size_n = 9, start_p = 0, end_p = 6\<rparr>
   \<and> view \<lparr>buf = ''tensor( float )'', data_p = 6, size_n = 9, start_p = 0, end_p = 6\<rparr>
       = ''( float )''
   \<and> view (ParensWhitespaceStrip
         \<lparr>buf = ''tensor( float )'', data_p = 6, size_n = 9, start_p = 0, end_p = 6\<rparr>)
       = ''float''"
proof -
  let ?s = "\<lparr>buf = ''tensor( float )'', data_p = 6, size_n = 9, start_p = 0, end_p = 6\<rparr>"
  have v: "valid_range ?s" by (simp add: valid_range_def)
  have w: "view ?s = ''('' @ '' '' @ ''float'' @ '' '' @ '')''" by (simp add: view_def)
  have "view (ParensWhitespaceStrip ?s) = ''float''"
    using ParensWhitespaceStrip_sequence [OF v, THEN conjunct2, rule_format,
        of "''(''" "'' ''" "''float''" "'' ''" "'')''"] w
    by (simp add: isspace_def)
  with v w show ?thesis by simp
qed

text \<open>
  Claim C7. After the construction of the registry, the validity set is exactly the
  fifteen canonical names, with \<open>complext64\<close> and \<open>complext128\<close> spelled so; the
  name-to-code table is defined on exactly these names, the code-to-name table yields
  exactly these names, and the two tables are inverse to each other: every valid name is
  mapped to a code whose name is that name, every code that has a name is the code of
  its name, and different valid names have different codes.
\<close>

theorem registry_bijection:
  "GetAllowedDataTypes =
     {''float'', ''float16'', ''double'', ''int8'', ''int16'', ''int32'', ''int64'',
      ''uint8'', ''uint16'', ''uint32'', ''uint64'', ''complext64'', ''complext128'',
      ''string'', ''bool''}
   \<and> card GetAllowedDataTypes = 15
   \<and> dom (map_of TypeStrToTensorDataType) = GetAllowedDataTypes
   \<and> ran (map_of TensorDataTypeToTypeStr) = GetAllowedDataTypes
   \<and> (\<forall>n \<in> GetAllowedDataTypes. \<exists>c.
         map_of TypeStrToTensorDataType n = Some c \<and> map_of TensorDataTypeToTypeStr c = Some n)
   \<and> (\<forall>c n. map_of TensorDataTypeToTypeStr c = Some n \<longrightarrow>
         map_of TypeStrToTensorDataType n = Some c)
   \<and> inj_on (map_of TypeStrToTensorDataType) GetAllowedDataTypes"
proof (intro conjI)
  show "GetAllowedDataTypes =
     {''float'', ''float16'', ''double'', ''int8'', ''int16'', ''int32'', ''int64'',
      ''uint8'', ''uint16'', ''uint32'', ''uint64'', ''complext64'', ''complext128'',
      ''string'', ''bool''}"
    by (simp add: table_simps)
  have "card (set (map fst TypesWrapper_assignments)) = length (map fst TypesWrapper_assignments)"
    using distinct_names by (rule distinct_card)
  then show "card GetAllowedDataTypes = 15"
    by (simp add: allowed_set) (simp add: TypesWrapper_assignments_def)
  show d: "dom (map_of TypeStrToTensorDataType) = GetAllowedDataTypes"
    by (simp add: dom_map_of_conv_image_fst allowed_set type_str_table)
  show bij: "\<forall>n \<in> GetAllowedDataTypes. \<exists>c.
         map_of TypeStrToTensorDataType n = Some c \<and> map_of TensorDataTypeToTypeStr c = Some n"
    using name_to_code_to_name by blast
  show rev: "\<forall>c n. map_of TensorDataTypeToTypeStr c = Some n \<longrightarrow>
         map_of TypeStrToTensorDataType n = Some c"
    using code_to_name_to_code by blast
  show "ran (map_of TensorDataTypeToTypeStr) = GetAllowedDataTypes"
  proof
    show "ran (map_of TensorDataTypeToTypeStr) \<subseteq> GetAllowedDataTypes"
      using rev d by (auto simp add: ran_def)
    show "GetAllowedDataTypes \<subseteq> ran (map_of TensorDataTypeToTypeStr)"
      using bij by (auto simp add: ran_def)
  qed
  show "inj_on (map_of TypeStrToTensorDataType) GetAllowedDataTypes"
  proof (rule inj_onI)
    fix n n'
    assume n: "n \<in> GetAllowedDataTypes" and n': "n' \<in> GetAllowedDataTypes"
      and e: "map_of TypeStrToTensorDataType n = map_of TypeStrToTensorDataType n'"
    from name_to_code_to_name [OF n] obtain c
      where c: "map_of TypeStrToTensorDataType n = Some c"
        "map_of TensorDataTypeToTypeStr c = Some n" by blast
    from name_to_code_to_name [OF n'] obtain c'
      where c': "map_of TypeStrToTensorDataType n' = Some c'"
        "map_of TensorDataTypeToTypeStr c' = Some n'" by blast
    from e c(1) c'(1) have "c = c'" by simp
    with c(2) c'(2) show "n = n'" by simp
  qed
qed

theorem registry_bijection_witness:
  "''complext64'' \<in> GetAllowedDataTypes
   \<and> map_of TypeStrToTensorDataType ''complext64'' = Some COMPLEX64
   \<and> map_of TensorDataTypeToTypeStr COMPLEX64 = Some ''complext64''"
proof -
  have m: "''complext64'' \<in> GetAllowedDataTypes" by (simp add: table_simps)
  have "\<forall>n \<in> GetAllowedDataTypes. \<exists>c.
         map_of TypeStrToTensorDataType n = Some c \<and> map_of TensorDataTypeToTypeStr c = Some n"
    using registry_bijection by blast
  with m obtain c where c: "map_of TypeStrToTensorDataType ''complext64'' = Some c"
      "map_of TensorDataTypeToTypeStr c = Some ''complext64''"
    by blast
  moreover have "map_of TypeStrToTensorDataType ''complext64'' = Some COMPLEX64"
    by (simp add: table_simps)
  ultimately show ?thesis using m by simp
qed

text \<open>
  Claim C8. After the last RestartCapture and any sequence of strip operations,
  GetCaptured should return the range from the position recorded at the reset to the
  current front edge, byte for byte the text consumed by left strips since the reset; the
  comment of the source on these methods says the same (they return the range of the
  string which was discarded by LStrip). The code does not do so: on the buffer \<open>ab cd\<close>,
  after a reset, \<^verbatim>\<open>LStrip(2)\<close> and then \<^verbatim>\<open>LStrip()\<close> consume the three bytes \<open>ab \<close> (with
  the blank), while GetCaptured returns the two bytes \<open>ab\<close>, because it builds its result
  with the constructor that strips whitespace.
\<close>

theorem captured_range_counterexample:
  "consumed_text capture_example (strips capture_example_ops capture_example) = ''ab ''
   \<and> view (GetCaptured (strips capture_example_ops capture_example)) = ''ab''
   \<and> view (GetCaptured (strips capture_example_ops capture_example))
       \<noteq> consumed_text capture_example (strips capture_example_ops capture_example)"
proof -
  have "consumed_text capture_example (strips capture_example_ops capture_example) = ''ab ''"
    by (simp add: capture_example_end consumed_text_def) (simp add: capture_example_start view_def)
  moreover have "view (GetCaptured (strips capture_example_ops capture_example)) = ''ab''"
    by (simp add: capture_example_end GetCaptured_def view_StringRange_data_size
        lstrip_ws_def rstrip_ws_def isspace_def)
  ultimately show ?thesis by simp
qed

text \<open>
  Claim C10. For every valid element name \<open>E\<close>, the input made of \<open>tensor\<close>, optional
  whitespace, an optional opening parenthesis, optional whitespace, \<open>E\<close>, optional
  whitespace and an optional closing parenthesis parses successfully, to the same
  descriptor without a shape as \<open>tensor(E)\<close>: each parenthesis may be missing on its own.
  The witness is \<open>tensor int32\<close>, \<open>tensor(int32\<close> and \<open>tensorint32)\<close>.
\<close>

theorem parse_accepts_unbalanced_tensor_forms:
  assumes "IsValidDataTypeString E"
    and "list_all isspace ws0" "list_all isspace ws1" "list_all isspace ws2"
    and "lp = [] \<or> lp = ''(''"
    and "rp = [] \<or> rp = '')''"
  shows "\<exists>c. map_of TypeStrToTensorDataType E = Some c
           \<and> FromString (''tensor('' @ E @ '')'')
               = Inr (kTensorType \<lparr>elem_type = c, shape = None\<rparr>)
           \<and> FromString (''tensor'' @ ws0 @ lp @ ws1 @ E @ ws2 @ rp)
               = Inr (kTensorType \<lparr>elem_type = c, shape = None\<rparr>)"
proof -
  from FromDataTypeString_valid [OF assms(1)] obtain c
    where c: "map_of TypeStrToTensorDataType E = Some c" by blast
  have "FromString ([] @ ''tensor'' @ [] @ ''('' @ [] @ E @ [] @ '')'' @ [])
      = Inr (kTensorType \<lparr>elem_type = c, shape = None\<rparr>)"
    using assms(1) c by (intro FromString_tensor_form) simp_all
  moreover have "FromString ([] @ ''tensor'' @ ws0 @ lp @ ws1 @ E @ ws2 @ rp @ [])
      = Inr (kTensorType \<lparr>elem_type = c, shape = None\<rparr>)"
    using assms c by (intro FromString_tensor_form) simp_all
  ultimately show ?thesis using c by simp
qed

theorem parse_accepts_unbalanced_tensor_forms_witness:
  "IsValidDataTypeString ''int32'' \<and> list_all isspace '' ''
   \<and> FromString ''tensor(int32)'' = Inr (kTensorType \<lparr>elem_type = INT32, shape = None\<rparr>)
   \<and> FromString ''tensor int32'' = Inr (kTensorType \<lparr>elem_type = INT32, shape = None\<rparr>)
   \<and> FromString ''tensor(int32'' = Inr (kTensorType \<lparr>elem_type = INT32, shape = None\<rparr>)
   \<and> FromString ''tensorint32)'' = Inr (kTensorType \<lparr>elem_type = INT32, shape = None\<rparr>)"
proof -
  have v: "IsValidDataTypeString ''int32''"
    by (simp add: IsValidDataTypeString_def table_simps)
  have s: "list_all isspace '' ''" "list_all isspace []" by (simp_all add: isspace_def)
  have c: "map_of TypeStrToTensorDataType ''int32'' = Some INT32" by (simp add: table_simps)
  show ?thesis
    using v s(1) c
      parse_accepts_unbalanced_tensor_forms [OF v s(1) s(2) s(2), of "[]" "[]"]
      parse_accepts_unbalanced_tensor_forms [OF v s(2) s(2) s(2), of "''(''" "[]"]
      parse_accepts_unbalanced_tensor_forms [OF v s(2) s(2) s(2), of "[]" "'')''"]
    by simp
qed

end
